theory Spec2Isabelle
  imports Complex_Main "HOL-Library.Char_ord" "HOL-Library.List_Lexorder" "HOL-Library.Sublist"
begin

section \<open>Conventions of the embedding\<close>

text \<open>
  This theory embeds the pure part of trakt-graph: the statistics of \<open>stats.js\<close>, the
  history processing of \<open>fetcher.js\<close>, the grid, colour, escaping and cell rendering of
  \<open>generator.js\<close>, and the standalone analogue \<open>standalone.js\<close>.

  \<^item> A JavaScript \<open>Date\<close> is its time value, an \<^typ>\<open>int\<close> of milliseconds since the epoch.
    The abstract operations of ECMAScript (\<open>Day\<close>, \<open>YearFromTime\<close>, \<open>MakeDay\<close>, ...) are
    defined on all of \<^typ>\<open>int\<close>: the runtime's limit of 8.64e15 ms, beyond which a date is
    invalid, is not part of the model.
  \<^item> Local time is UTC plus a constant offset \<open>tz\<close> in milliseconds, a parameter of every
    function that reads a local field. A zone with daylight saving is outside the model.
  \<^item> Strings are lists of \<^typ>\<open>char\<close>; the default sort of arrays of strings is the
    lexicographic order on character codes.
  \<^item> Numbers are integers. The divisions of the embedded code are followed by
    \<open>Math.round\<close>, \<open>Math.floor\<close> or \<open>Math.ceil\<close> and are written as integer divisions, which
    agree with the double-precision results as long as the operands stay below \<open>2^51\<close>.
    The one rounding of a product that is not exact, the bar height of the weekly
    distribution, is a parameter of the model.
  \<^item> \<open>null\<close> and \<open>undefined\<close> are \<^const>\<open>None\<close>; an exception is a value of a sum type.
\<close>

section \<open>The ECMAScript date runtime\<close>

text \<open>
  Day numbers and the calendar, after the specification of \<open>Date\<close> objects. The year of a
  day is found by a search (\<open>year_from\<close>) upwards from an estimate that never exceeds it;
  the arithmetic lemmas before it are what its termination proof needs.
\<close>
definition msPerDay :: int where
  "msPerDay = 86400000"

definition Day :: "int \<Rightarrow> int" where
  "Day t = t div msPerDay"

definition TimeWithinDay :: "int \<Rightarrow> int" where
  "TimeWithinDay t = t mod msPerDay"

definition DaysInYear :: "int \<Rightarrow> int" where
  "DaysInYear y = (if y mod 4 \<noteq> 0 then 365 else if y mod 100 \<noteq> 0 then 366
                   else if y mod 400 \<noteq> 0 then 365 else 366)"

definition DayFromYear :: "int \<Rightarrow> int" where
  "DayFromYear y = 365 * (y - 1970) + (y - 1969) div 4 - (y - 1901) div 100 + (y - 1601) div 400"

lemma div_step:
  fixes a c :: int
  assumes c: "0 < c"
  shows "(a + 1) div c = a div c + (if (a + 1) mod c = 0 then 1 else 0)"
proof (cases "(a + 1) mod c = 0")
  case True
  have e: "a + 1 = c * ((a + 1) div c)" using True mult_div_mod_eq[of c "a + 1"] by simp
  have "a = c * ((a + 1) div c - 1) + (c - 1)" using e by (simp add: algebra_simps)
  moreover have "0 \<le> c - 1" "c - 1 < c" using c by simp_all
  ultimately have "a div c = (a + 1) div c - 1" by (rule int_div_pos_eq)
  then show ?thesis using True by simp
next
  case False
  have r: "0 \<le> (a + 1) mod c" "(a + 1) mod c < c" using c by simp_all
  have "a = c * ((a + 1) div c) + ((a + 1) mod c - 1)"
    using mult_div_mod_eq[of c "a + 1"] by linarith
  moreover have "0 \<le> (a + 1) mod c - 1" using r False by linarith
  moreover have "(a + 1) mod c - 1 < c" using r by linarith
  ultimately have "a div c = (a + 1) div c" by (rule int_div_pos_eq)
  then show ?thesis using False by simp
qed

lemma mod_shift4: "(y - 1968) mod 4 = y mod 4" for y :: int
proof -
  have "y - 1968 = y + 4 * (- 492)" by simp
  then show ?thesis by (metis mod_mult_self2)
qed

lemma mod_shift100: "(y - 1900) mod 100 = y mod 100" for y :: int
proof -
  have "y - 1900 = y + 100 * (- 19)" by simp
  then show ?thesis by (metis mod_mult_self2)
qed

lemma mod_shift400: "(y - 1600) mod 400 = y mod 400" for y :: int
proof -
  have "y - 1600 = y + 400 * (- 4)" by simp
  then show ?thesis by (metis mod_mult_self2)
qed

lemma mod100_mod4: "y mod 100 = 0 \<Longrightarrow> y mod 4 = 0" for y :: int
proof -
  assume "y mod 100 = 0"
  moreover have "y mod 100 mod 4 = y mod 4" by (rule mod_mod_cancel) simp
  ultimately show ?thesis by simp
qed

lemma mod400_mod100: "y mod 400 = 0 \<Longrightarrow> y mod 100 = 0" for y :: int
proof -
  assume "y mod 400 = 0"
  moreover have "y mod 400 mod 100 = y mod 100" by (rule mod_mod_cancel) simp
  ultimately show ?thesis by simp
qed

lemma DayFromYear_Suc: "DayFromYear (y + 1) = DayFromYear y + DaysInYear y"
proof -
  have a: "(y + 1 - 1969) div 4 = (y - 1969) div 4 + (if y mod 4 = 0 then 1 else 0)"
    using div_step[of 4 "y - 1969"] mod_shift4[of y] by (simp add: algebra_simps)
  have b: "(y + 1 - 1901) div 100 = (y - 1901) div 100 + (if y mod 100 = 0 then 1 else 0)"
    using div_step[of 100 "y - 1901"] mod_shift100[of y] by (simp add: algebra_simps)
  have c: "(y + 1 - 1601) div 400 = (y - 1601) div 400 + (if y mod 400 = 0 then 1 else 0)"
    using div_step[of 400 "y - 1601"] mod_shift400[of y] by (simp add: algebra_simps)
  show ?thesis
    unfolding DayFromYear_def DaysInYear_def a b c
    using mod100_mod4[of y] mod400_mod100[of y] by auto
qed

lemma DaysInYear_bounds: "365 \<le> DaysInYear y" "DaysInYear y \<le> 366"
  by (simp_all add: DaysInYear_def)

function year_from :: "int \<Rightarrow> int \<Rightarrow> int" where
  "year_from d y = (if DayFromYear (y + 1) \<le> d then year_from d (y + 1) else y)"
  by pat_completeness auto
termination
proof (relation "measure (\<lambda>(d, y). nat (d - DayFromYear y))")
  show "wf (measure (\<lambda>(d, y). nat (d - DayFromYear y)))" by simp
next
  fix d y :: int
  assume "DayFromYear (y + 1) \<le> d"
  then show "((d, y + 1), (d, y)) \<in> measure (\<lambda>(d, y). nat (d - DayFromYear y))"
    using DayFromYear_Suc[of y] DaysInYear_bounds(1)[of y] by simp
qed

declare year_from.simps [simp del]

definition YearFromDay :: "int \<Rightarrow> int" where
  "YearFromDay d = year_from d (1970 + (if 0 \<le> d then d div 366 else d div 365))"

definition YearFromTime :: "int \<Rightarrow> int" where
  "YearFromTime t = YearFromDay (Day t)"

definition InLeapYear :: "int \<Rightarrow> int" where
  "InLeapYear t = (if DaysInYear (YearFromTime t) = 366 then 1 else 0)"

definition DayWithinYear :: "int \<Rightarrow> int" where
  "DayWithinYear t = Day t - DayFromYear (YearFromTime t)"

definition MonthFromTime :: "int \<Rightarrow> int" where
  "MonthFromTime t =
     (let d = DayWithinYear t; l = InLeapYear t in
      if d < 31 then 0
      else if d < 59 + l then 1
      else if d < 90 + l then 2
      else if d < 120 + l then 3
      else if d < 151 + l then 4
      else if d < 181 + l then 5
      else if d < 212 + l then 6
      else if d < 243 + l then 7
      else if d < 273 + l then 8
      else if d < 304 + l then 9
      else if d < 334 + l then 10
      else 11)"

definition DateFromTime :: "int \<Rightarrow> int" where
  "DateFromTime t =
     (let d = DayWithinYear t; l = InLeapYear t; m = MonthFromTime t in
      if m = 0 then d + 1
      else if m = 1 then d - 30
      else if m = 2 then d - 58 - l
      else if m = 3 then d - 89 - l
      else if m = 4 then d - 119 - l
      else if m = 5 then d - 150 - l
      else if m = 6 then d - 180 - l
      else if m = 7 then d - 211 - l
      else if m = 8 then d - 242 - l
      else if m = 9 then d - 272 - l
      else if m = 10 then d - 303 - l
      else d - 333 - l)"

definition WeekDay :: "int \<Rightarrow> int" where
  "WeekDay t = (Day t + 4) mod 7"

definition MonthStart :: "int \<Rightarrow> int \<Rightarrow> int" where
  "MonthStart mn l =
     (if mn = 0 then 0
      else if mn = 1 then 31
      else if mn = 2 then 59 + l
      else if mn = 3 then 90 + l
      else if mn = 4 then 120 + l
      else if mn = 5 then 151 + l
      else if mn = 6 then 181 + l
      else if mn = 7 then 212 + l
      else if mn = 8 then 243 + l
      else if mn = 9 then 273 + l
      else if mn = 10 then 304 + l
      else 334 + l)"

definition MakeDay :: "int \<Rightarrow> int \<Rightarrow> int \<Rightarrow> int" where
  "MakeDay yr month dt =
     (let ym = yr + month div 12; mn = month mod 12;
          l = (if DaysInYear ym = 366 then 1 else 0)
      in DayFromYear ym + MonthStart mn l + dt - 1)"

definition MakeTime :: "int \<Rightarrow> int \<Rightarrow> int \<Rightarrow> int \<Rightarrow> int" where
  "MakeTime h mi s ms = h * 3600000 + mi * 60000 + s * 1000 + ms"

definition MakeDate :: "int \<Rightarrow> int \<Rightarrow> int" where
  "MakeDate dy tm = dy * msPerDay + tm"

text \<open>
  \<open>Date.UTC\<close> reads a year from 0 to 99 as a year of the twentieth century.
\<close>

definition MakeFullYear :: "int \<Rightarrow> int" where
  "MakeFullYear yr = (if 0 \<le> yr \<and> yr \<le> 99 then 1900 + yr else yr)"

definition Date_UTC :: "int \<Rightarrow> int \<Rightarrow> int \<Rightarrow> int \<Rightarrow> int \<Rightarrow> int \<Rightarrow> int" where
  "Date_UTC yr month dt h mi s = MakeDate (MakeDay (MakeFullYear yr) month dt) (MakeTime h mi s 0)"

definition getUTCDay :: "int \<Rightarrow> int" where
  "getUTCDay t = WeekDay t"

definition getUTCDate :: "int \<Rightarrow> int" where
  "getUTCDate t = DateFromTime t"

definition setUTCDate :: "int \<Rightarrow> int \<Rightarrow> int" where
  "setUTCDate t dt = MakeDate (MakeDay (YearFromTime t) (MonthFromTime t) dt) (TimeWithinDay t)"

text \<open>
  The local fields of a date are the fields of its time value moved by the zone offset.
\<close>

definition LocalTime :: "int \<Rightarrow> int \<Rightarrow> int" where
  "LocalTime tz t = t + tz"

definition getFullYear :: "int \<Rightarrow> int \<Rightarrow> int" where
  "getFullYear tz t = YearFromTime (LocalTime tz t)"

definition getMonth :: "int \<Rightarrow> int \<Rightarrow> int" where
  "getMonth tz t = MonthFromTime (LocalTime tz t)"

definition getDate :: "int \<Rightarrow> int \<Rightarrow> int" where
  "getDate tz t = DateFromTime (LocalTime tz t)"

definition getDay :: "int \<Rightarrow> int \<Rightarrow> int" where
  "getDay tz t = WeekDay (LocalTime tz t)"

text \<open>
  \<open>String(n)\<close> for an integer, \<open>padStart(2, '0')\<close>, and the local day string of \<open>stats.js\<close>.
\<close>

definition digit_char :: "nat \<Rightarrow> char" where
  "digit_char n = char_of (48 + n)"

fun show_nat :: "nat \<Rightarrow> string" where
  "show_nat n = (if n < 10 then [digit_char n] else show_nat (n div 10) @ [digit_char (n mod 10)])"

declare show_nat.simps [simp del]

definition String_int :: "int \<Rightarrow> string" where
  "String_int i = (if i < 0 then CHR ''-'' # show_nat (nat (- i)) else show_nat (nat i))"

definition padStart2 :: "string \<Rightarrow> string" where
  "padStart2 s = replicate (2 - length s) (CHR ''0'') @ s"

definition getLocalDateString :: "int \<Rightarrow> int \<Rightarrow> string" where
  "getLocalDateString tz t =
     String_int (getFullYear tz t) @ ''-'' @ padStart2 (String_int (getMonth tz t + 1))
       @ ''-'' @ padStart2 (String_int (getDate tz t))"

text \<open>
  \<open>Date.parse\<close> on the date-only form \<open>YYYY-MM-DD\<close>, read as UTC midnight. A month outside
  1..12 or a day outside 1..31 gives an invalid date, and so does every other string: the
  program parses only strings of this form, and the result on others is left to the
  implementation by ECMAScript.
\<close>

definition is_digit :: "char \<Rightarrow> bool" where
  "is_digit c = (48 \<le> (of_char c :: nat) \<and> (of_char c :: nat) \<le> 57)"

definition digit_val :: "char \<Rightarrow> nat" where
  "digit_val c = of_char c - 48"

definition digits_val :: "string \<Rightarrow> nat" where
  "digits_val s = foldl (\<lambda>acc c. 10 * acc + digit_val c) 0 s"

definition Date_parse :: "string \<Rightarrow> int option" where
  "Date_parse s =
     (if length s = 10 \<and> list_all is_digit (take 4 s) \<and> s ! 4 = CHR ''-''
         \<and> list_all is_digit (take 2 (drop 5 s)) \<and> s ! 7 = CHR ''-''
         \<and> list_all is_digit (drop 8 s)
      then let y = digits_val (take 4 s); m = digits_val (take 2 (drop 5 s));
               d = digits_val (drop 8 s)
           in if 1 \<le> m \<and> m \<le> 12 \<and> 1 \<le> d \<and> d \<le> 31
              then Some (MakeDate (MakeDay (int y) (int m - 1) (int d)) 0)
              else None
      else None)"
section \<open>The program\<close>

subsection \<open>stats.js: the longest streak and the active days\<close>

text \<open>
  An entry is a processed history item; its \<open>date\<close> is a time value. A JavaScript \<open>Set\<close>
  keeps the first occurrence of each element in insertion order (\<open>Set_from\<close>).
  \<open>new Date(s)\<close> on a day string is \<open>Date_parse\<close>, with \<^const>\<open>None\<close> for an invalid date:
  a comparison of \<open>NaN\<close> with 1 is false, so the loop of \<open>calculateStreak\<close> then takes its
  else branch. The loop is \<open>streak_loop\<close> over the sorted unique days, \<open>streak_step\<close> being
  its body.
\<close>

record entry =
  date :: int
  title :: string
  episodeTitle :: "string option"
  episode :: "string option"
  year :: int
  etype :: string
  rating :: "int option"

record StreakResult =
  streak_length :: nat
  streak_startDate :: "string option"
  streak_endDate :: "string option"

definition Set_add :: "'a list \<Rightarrow> 'a \<Rightarrow> 'a list" where
  "Set_add seen x = (if x \<in> set seen then seen else seen @ [x])"

definition Set_from :: "'a list \<Rightarrow> 'a list" where
  "Set_from xs = foldl Set_add [] xs"

definition Math_round_div :: "int \<Rightarrow> int \<Rightarrow> int" where
  "Math_round_div a b = (2 * a + b) div (2 * b)"

definition diffDays :: "string \<Rightarrow> string \<Rightarrow> int option" where
  "diffDays prevS currS =
     (case (Date_parse prevS, Date_parse currS) of
        (Some prevDate, Some currDate) \<Rightarrow> Some (Math_round_div (currDate - prevDate) msPerDay)
      | _ \<Rightarrow> None)"

record streak_vars =
  maxStreak :: nat
  currentStreak :: nat
  maxStart :: string
  maxEnd :: string
  currentStart :: string

definition streak_step :: "streak_vars \<Rightarrow> string \<Rightarrow> string \<Rightarrow> streak_vars" where
  "streak_step v prevS currS =
     (if diffDays prevS currS = Some 1
      then let v1 = v\<lparr>currentStreak := currentStreak v + 1\<rparr>
           in if currentStreak v1 > maxStreak v1
              then v1\<lparr>maxStreak := currentStreak v1, maxStart := currentStart v1,
                      maxEnd := currS\<rparr>
              else v1
      else v\<lparr>currentStreak := 1, currentStart := currS\<rparr>)"

fun streak_loop :: "streak_vars \<Rightarrow> string \<Rightarrow> string list \<Rightarrow> streak_vars" where
  "streak_loop v prevS [] = v"
| "streak_loop v prevS (currS # rest) = streak_loop (streak_step v prevS currS) currS rest"

definition uniqueDates :: "int \<Rightarrow> entry list \<Rightarrow> string list" where
  "uniqueDates tz entries = sort (Set_from (map (\<lambda>e. getLocalDateString tz (date e)) entries))"

definition calculateStreak :: "int \<Rightarrow> entry list \<Rightarrow> StreakResult" where
  "calculateStreak tz entries =
     (if entries = []
      then \<lparr>streak_length = 0, streak_startDate = None, streak_endDate = None\<rparr>
      else case uniqueDates tz entries of
             [] \<Rightarrow> \<lparr>streak_length = 0, streak_startDate = None, streak_endDate = None\<rparr>
           | d0 # rest \<Rightarrow>
               (let v = streak_loop \<lparr>maxStreak = 1, currentStreak = 1, maxStart = d0,
                                      maxEnd = d0, currentStart = d0\<rparr> d0 rest
                in \<lparr>streak_length = maxStreak v, streak_startDate = Some (maxStart v),
                    streak_endDate = Some (maxEnd v)\<rparr>))"

definition calculateDaysActive :: "int \<Rightarrow> entry list \<Rightarrow> nat" where
  "calculateDaysActive tz entries =
     (if entries = [] then 0
      else length (Set_from (map (\<lambda>e. getLocalDateString tz (date e)) entries)))"

text \<open>
  The notions the properties of \<open>calculateStreak\<close> are stated with: two day strings are
  consecutive when the loop's test on them succeeds, and a run of a list of days is a
  non-empty contiguous part of it whose neighbours are consecutive.
\<close>

definition consecutive :: "string \<Rightarrow> string \<Rightarrow> bool" where
  "consecutive a b = (diffDays a b = Some 1)"

definition is_run :: "string list \<Rightarrow> string list \<Rightarrow> bool" where
  "is_run ds g = (g \<noteq> [] \<and> sublist g ds \<and> successively consecutive g)"

text \<open>
  The invariant of the loop after the prefix \<open>pre\<close> of the sorted days: the current streak
  is the longest run that ends \<open>pre\<close>, and the maximal streak is a longest run of \<open>pre\<close>.
\<close>

definition streak_inv :: "string list \<Rightarrow> streak_vars \<Rightarrow> bool" where
  "streak_inv pre v =
     (\<exists>cur g.
        cur \<noteq> [] \<and> suffix cur pre \<and> successively consecutive cur
        \<and> (\<forall>c. suffix c pre \<and> successively consecutive c \<longrightarrow> length c \<le> length cur)
        \<and> currentStreak v = length cur \<and> currentStart v = hd cur
        \<and> is_run pre g
        \<and> (\<forall>h. is_run pre h \<longrightarrow> length h \<le> length g)
        \<and> maxStreak v = length g \<and> maxStart v = hd g \<and> maxEnd v = last g)"
subsection \<open>stats.js: grouping entries by local day\<close>

record grouped_item =
  gi_title :: string
  gi_year :: int
  gi_rating :: "int option"
  gi_type :: string
  gi_episode :: "string option"

definition Map_push :: "(string \<times> grouped_item list) list \<Rightarrow> string \<Rightarrow> grouped_item
                          \<Rightarrow> (string \<times> grouped_item list) list" where
  "Map_push grouped dateKey item =
     (case map_of grouped dateKey of
        None \<Rightarrow> grouped @ [(dateKey, [item])]
      | Some items \<Rightarrow> map (\<lambda>(k, v). if k = dateKey then (k, v @ [item]) else (k, v)) grouped)"

definition groupEntriesByDate :: "int \<Rightarrow> entry list \<Rightarrow> (string \<times> grouped_item list) list" where
  "groupEntriesByDate tz entries =
     foldl (\<lambda>grouped e. Map_push grouped (getLocalDateString tz (date e))
              \<lparr>gi_title = title e, gi_year = year e, gi_rating = rating e,
               gi_type = etype e, gi_episode = episode e\<rparr>) [] entries"

subsection \<open>fetcher.js: processTraktHistory\<close>

record raw_episode =
  ep_season :: int
  ep_number :: int
  ep_title :: string
  ep_rating :: "int option"

record raw_show =
  show_title :: string
  show_year :: int

record raw_movie =
  movie_title :: string
  movie_year :: int
  movie_rating :: "int option"

record raw_item =
  watched_at :: string
  item_type :: string
  item_episode :: "raw_episode option"
  item_show :: "raw_show option"
  item_movie :: "raw_movie option"

datatype js_error = TypeError

record processed =
  res_entries :: "entry list"
  res_year :: "int option"
  totalItemsWatched :: nat
  moviesCount :: nat
  episodesCount :: nat

text \<open>
  \<open>new Date(entry.watched_at)\<close> is a call into the runtime's date-time parser; it is taken
  as the parameter \<open>newDate\<close>, with \<open>None\<close> for an Invalid Date. A year is an
  \<open>int option\<close>, \<open>None\<close> being the \<open>NaN\<close> that \<open>getFullYear\<close> returns on an Invalid Date.
\<close>

definition entryYear :: "(string \<Rightarrow> int option) \<Rightarrow> int \<Rightarrow> raw_item \<Rightarrow> int option" where
  "entryYear newDate tz item = map_option (getFullYear tz) (newDate (watched_at item))"

definition yearCount_set :: "(int option \<times> nat) list \<Rightarrow> int option \<Rightarrow> (int option \<times> nat) list" where
  "yearCount_set yearCount k =
     (case map_of yearCount k of
        None \<Rightarrow> yearCount @ [(k, 1)]
      | Some c \<Rightarrow> map (\<lambda>(k', v). if k' = k then (k', (if c = 0 then 0 else c) + 1) else (k', v)) yearCount)"

definition count_gt :: "nat option \<Rightarrow> nat option \<Rightarrow> bool" where
  "count_gt a b = (case (a, b) of (Some x, Some y) \<Rightarrow> x > y | _ \<Rightarrow> False)"

definition selectYear :: "(int option \<times> nat) list \<Rightarrow> int \<Rightarrow> int option \<Rightarrow> int option" where
  "selectYear yearCount currentYear targetYear =
     (case targetYear of
        Some y \<Rightarrow> if y \<noteq> 0 then Some y
                  else foldl (\<lambda>a b. if count_gt (map_of yearCount a) (map_of yearCount b) then a else b)
                         (Some currentYear) (map fst yearCount)
      | None \<Rightarrow> foldl (\<lambda>a b. if count_gt (map_of yearCount a) (map_of yearCount b) then a else b)
                         (Some currentYear) (map fst yearCount))"

definition episodeCode :: "raw_episode \<Rightarrow> string" where
  "episodeCode ep = ''S'' @ padStart2 (String_int (ep_season ep)) @ ''E'' @ padStart2 (String_int (ep_number ep))"

definition falsy_to_null :: "int option \<Rightarrow> int option" where
  "falsy_to_null r = (case r of Some v \<Rightarrow> if v = 0 then None else Some v | None \<Rightarrow> None)"

definition history_step :: "(string \<Rightarrow> int option) \<Rightarrow> int \<Rightarrow> int option \<Rightarrow> processed \<Rightarrow> raw_item
                              \<Rightarrow> js_error + processed" where
  "history_step newDate tz selectedYear acc item =
     (case newDate (watched_at item) of
        None \<Rightarrow> Inr acc
      | Some d \<Rightarrow>
          if Some (getFullYear tz d) \<noteq> selectedYear then Inr acc
          else if item_type item = ''episode'' then
            (case (item_episode item, item_show item) of
               (Some ep, Some sh) \<Rightarrow>
                 Inr (acc\<lparr>res_entries := res_entries acc @
                            [\<lparr>date = d, title = show_title sh, episodeTitle = Some (ep_title ep),
                              episode = Some (episodeCode ep), year = show_year sh,
                              etype = ''episode'', rating = falsy_to_null (ep_rating ep)\<rparr>],
                          episodesCount := episodesCount acc + 1,
                          totalItemsWatched := totalItemsWatched acc + 1\<rparr>)
             | _ \<Rightarrow> Inl TypeError)
          else if item_type item = ''movie'' then
            (case item_movie item of
               Some mv \<Rightarrow>
                 Inr (acc\<lparr>res_entries := res_entries acc @
                            [\<lparr>date = d, title = movie_title mv, episodeTitle = None,
                              episode = None, year = movie_year mv,
                              etype = ''movie'', rating = falsy_to_null (movie_rating mv)\<rparr>],
                          moviesCount := moviesCount acc + 1,
                          totalItemsWatched := totalItemsWatched acc + 1\<rparr>)
             | None \<Rightarrow> Inl TypeError)
          else Inr acc)"

fun history_loop :: "(string \<Rightarrow> int option) \<Rightarrow> int \<Rightarrow> int option \<Rightarrow> processed \<Rightarrow> raw_item list
                       \<Rightarrow> js_error + processed" where
  "history_loop newDate tz selectedYear acc [] = Inr acc"
| "history_loop newDate tz selectedYear acc (item # items) =
     (case history_step newDate tz selectedYear acc item of
        Inl err \<Rightarrow> Inl err
      | Inr acc' \<Rightarrow> history_loop newDate tz selectedYear acc' items)"

definition processTraktHistory :: "(string \<Rightarrow> int option) \<Rightarrow> int \<Rightarrow> int \<Rightarrow> raw_item list \<Rightarrow> int option
                                     \<Rightarrow> js_error + processed" where
  "processTraktHistory newDate tz currentYear history targetYear =
     (let yearCount = foldl (\<lambda>yc item. yearCount_set yc (entryYear newDate tz item)) [] history;
          selectedYear = selectYear yearCount currentYear targetYear
      in history_loop newDate tz selectedYear
           \<lparr>res_entries = [], res_year = selectedYear, totalItemsWatched = 0,
            moviesCount = 0, episodesCount = 0\<rparr> history)"

subsection \<open>generator: escapeXml\<close>

definition escape_entity :: "char \<Rightarrow> string" where
  "escape_entity c =
     (if c = CHR ''<'' then ''&lt;''
      else if c = CHR ''>'' then ''&gt;''
      else if c = CHR ''&'' then ''&amp;''
      else if c = CHR 0x27 then ''&apos;''
      else if c = CHR 0x22 then ''&quot;''
      else [c])"

definition escapeXml :: "string option \<Rightarrow> string" where
  "escapeXml unsafe = (case unsafe of None \<Rightarrow> [] | Some s \<Rightarrow> concat (map escape_entity s))"

subsection \<open>generator: the calendar layout of generateSvg and generateMultiYearSvg\<close>

definition ceil_div :: "int \<Rightarrow> int \<Rightarrow> int" where
  "ceil_div a b = - ((- a) div b)"

definition dayShift :: "string \<Rightarrow> int \<Rightarrow> int" where
  "dayShift weekStart startDay = (if weekStart = ''monday'' then (startDay + 6) mod 7 else startDay)"

definition startDate :: "int \<Rightarrow> string \<Rightarrow> int" where
  "startDate displayYear weekStart =
     (let startDate0 = Date_UTC displayYear 0 1 0 0 0;
          shift = dayShift weekStart (getUTCDay startDate0)
      in if shift > 0 then setUTCDate startDate0 (getUTCDate startDate0 - shift) else startDate0)"

definition totalDays :: "int \<Rightarrow> string \<Rightarrow> int" where
  "totalDays displayYear weekStart =
     ceil_div (Date_UTC displayYear 11 31 0 0 0 - startDate displayYear weekStart) msPerDay + 1"

definition totalWeeks :: "int \<Rightarrow> string \<Rightarrow> int" where
  "totalWeeks displayYear weekStart = ceil_div (totalDays displayYear weekStart) 7"

type_synonym grid = "nat list list"

datatype grid_fault = RowUndefined | ColumnOutside

definition grid_new :: "int \<Rightarrow> grid" where
  "grid_new tw = replicate 7 (replicate (nat tw) 0)"

definition grid_incr :: "grid \<Rightarrow> int \<Rightarrow> int \<Rightarrow> grid_fault + grid" where
  "grid_incr g dayIndex weekIndex =
     (if dayIndex < 0 \<or> int (length g) \<le> dayIndex then Inl RowUndefined
      else let row = g ! nat dayIndex
           in if weekIndex < 0 \<or> int (length row) \<le> weekIndex then Inl ColumnOutside
              else Inr (g[nat dayIndex := row[nat weekIndex := row ! nat weekIndex + 1]]))"

definition dayIndexOf :: "string \<Rightarrow> int \<Rightarrow> int" where
  "dayIndexOf weekStart t = (if weekStart = ''monday'' then (getUTCDay t + 6) mod 7 else getUTCDay t)"

record grid_state =
  grid :: grid
  maxCount :: nat

definition grid_step :: "int \<Rightarrow> int \<Rightarrow> string \<Rightarrow> grid_state \<Rightarrow> entry \<Rightarrow> grid_fault + grid_state" where
  "grid_step start tw weekStart st e =
     (let daysSinceStart = (date e - start) div msPerDay;
          weekIndex = daysSinceStart div 7;
          dayIndex = dayIndexOf weekStart (date e)
      in if 0 \<le> weekIndex \<and> weekIndex < tw
         then (case grid_incr (grid st) dayIndex weekIndex of
                 Inl fault \<Rightarrow> Inl fault
               | Inr g \<Rightarrow> Inr \<lparr>grid = g, maxCount = max (maxCount st) (g ! nat dayIndex ! nat weekIndex)\<rparr>)
         else Inr st)"

fun grid_loop :: "int \<Rightarrow> int \<Rightarrow> string \<Rightarrow> grid_state \<Rightarrow> entry list \<Rightarrow> grid_fault + grid_state" where
  "grid_loop start tw weekStart st [] = Inr st"
| "grid_loop start tw weekStart st (e # es) =
     (case grid_step start tw weekStart st e of
        Inl fault \<Rightarrow> Inl fault
      | Inr st' \<Rightarrow> grid_loop start tw weekStart st' es)"

definition sortedEntries :: "int \<Rightarrow> int \<Rightarrow> entry list \<Rightarrow> entry list" where
  "sortedEntries tz displayYear entries =
     sort_key date (filter (\<lambda>e. getFullYear tz (date e) = displayYear) entries)"

definition generateSvg_grid :: "int \<Rightarrow> entry list \<Rightarrow> int \<Rightarrow> string \<Rightarrow> grid_fault + grid_state" where
  "generateSvg_grid tz entries displayYear weekStart =
     grid_loop (startDate displayYear weekStart) (totalWeeks displayYear weekStart) weekStart
       \<lparr>grid = grid_new (totalWeeks displayYear weekStart), maxCount = 0\<rparr>
       (sortedEntries tz displayYear entries)"

definition sortedYears :: "int list \<Rightarrow> int list" where
  "sortedYears years = rev (sort years)"

definition generateMultiYearSvg_grids :: "int \<Rightarrow> entry list \<Rightarrow> int list \<Rightarrow> string
                                            \<Rightarrow> (grid_fault + grid_state) list" where
  "generateMultiYearSvg_grids tz entries years weekStart =
     map (\<lambda>yr. grid_loop (startDate yr weekStart) (totalWeeks yr weekStart) weekStart
                 \<lparr>grid = grid_new (totalWeeks yr weekStart), maxCount = 0\<rparr>
                 (filter (\<lambda>e. getFullYear tz (date e) = yr) entries))
         (sortedYears years)"

definition grid_sum :: "grid \<Rightarrow> nat" where
  "grid_sum g = sum_list (map sum_list g)"

subsection \<open>generator: colour levels\<close>

record theme =
  bg :: string
  cardBorder :: string
  text_colour :: string
  textMuted :: string
  tooltipBg :: string
  tooltipBorder :: string
  tooltipText :: string
  colors :: "string list"

definition theme_dark :: theme where
  "theme_dark = \<lparr>bg = ''#0d1117'', cardBorder = ''#21262d'', text_colour = ''#e6edf3'',
                 textMuted = ''#7d8590'', tooltipBg = ''#161b22'', tooltipBorder = ''#30363d'',
                 tooltipText = ''#f0f6fc'',
                 colors = [''#161b22'', ''#5c1015'', ''#8b1a22'', ''#c41e2a'', ''#ed1c24'']\<rparr>"

definition theme_light :: theme where
  "theme_light = \<lparr>bg = ''#ffffff'', cardBorder = ''#d1d9e0'', text_colour = ''#1f2328'',
                  textMuted = ''#656d76'', tooltipBg = ''#ffffff'', tooltipBorder = ''#d1d9e0'',
                  tooltipText = ''#1f2328'',
                  colors = [''#ebedf0'', ''#ffc9cc'', ''#ff8a8f'', ''#ed4c55'', ''#ed1c24'']\<rparr>"

text \<open>
  \<open>themes[theme] || themes.dark\<close>: a name that is no key of the table gives the dark
  theme. A name that every object inherits (\<open>constructor\<close>, \<open>toString\<close>, ...) makes the
  code read a foreign object in place of a theme; \<open>generateSvg\<close> below has a branch for
  it, and the functions that take a theme are meant for the other names.
\<close>

definition themes :: "string \<Rightarrow> theme" where
  "themes name = (if name = ''light'' then theme_light else theme_dark)"

definition getColor_level :: "nat \<Rightarrow> nat \<Rightarrow> nat" where
  "getColor_level maxCnt count =
     (if count = 0 then 0
      else if maxCnt = 0 then 0
      else min (nat (ceil_div (int count * 4) (int maxCnt))) 4)"

definition getColor :: "theme \<Rightarrow> nat \<Rightarrow> nat \<Rightarrow> string" where
  "getColor t maxCnt count = colors t ! getColor_level maxCnt count"

subsection \<open>generator: the cell loop of generateSvg\<close>

text \<open>
  One \<open>cell_group\<close> stands for the markup the loop appends for a cell: the link, the
  rectangle (class, position, fill) and the tooltip (position, size, escaped title and item
  lines). The bullet of an item line is U+2022, one code unit, written here as one character.
\<close>

record cell_group =
  cell_href :: string
  cell_class :: string
  cell_x :: int
  cell_y :: int
  cell_fill :: string
  tooltip_x :: int
  tooltip_y :: int
  tooltip_width :: int
  tooltip_height :: int
  tooltip_title :: string
  tooltip_lines :: "string list"

definition cellDate :: "int \<Rightarrow> int \<Rightarrow> int \<Rightarrow> int" where
  "cellDate start dy week = setUTCDate start (getUTCDate start + week * 7 + dy)"

definition isOutsideYear :: "int \<Rightarrow> int \<Rightarrow> bool" where
  "isOutsideYear displayYear cd =
     (cd < Date_UTC displayYear 0 1 0 0 0 \<or> cd > Date_UTC displayYear 11 31 0 0 0)"

definition isStreakCell :: "StreakResult \<Rightarrow> string \<Rightarrow> bool" where
  "isStreakCell streak tooltipDate =
     (streak_length streak > 0 \<and>
      (case (streak_startDate streak, streak_endDate streak) of
         (Some s, Some e) \<Rightarrow> s \<noteq> [] \<and> e \<noteq> [] \<and> tooltipDate \<ge> s \<and> tooltipDate \<le> e
       | _ \<Rightarrow> False))"

definition bullet :: char where
  "bullet = CHR 0x95"

definition dayNames :: "string list" where
  "dayNames = [''Sun'', ''Mon'', ''Tue'', ''Wed'', ''Thu'', ''Fri'', ''Sat'']"

definition MONTHS :: "string list" where
  "MONTHS = [''Jan'', ''Feb'', ''Mar'', ''Apr'', ''May'', ''Jun'', ''Jul'', ''Aug'', ''Sep'',
             ''Oct'', ''Nov'', ''Dec'']"

definition formatItem :: "grouped_item \<Rightarrow> string" where
  "formatItem item =
     (let plain = [bullet] @ '' '' @ gi_title item @ '' ('' @ String_int (gi_year item) @ '')''
      in case gi_episode item of
           Some ep \<Rightarrow>
             if gi_type item = ''episode'' \<and> ep \<noteq> []
             then [bullet] @ '' '' @ gi_title item @ '' '' @ ep
                    @ '' ('' @ String_int (gi_year item) @ '')''
             else plain
         | None \<Rightarrow> plain)"

definition tooltipTitle :: "int \<Rightarrow> int \<Rightarrow> nat \<Rightarrow> string" where
  "tooltipTitle tz cd count =
     dayNames ! nat (getDay tz cd) @ '', '' @ String_int (getDate tz cd) @ ''. ''
       @ MONTHS ! nat (getMonth tz cd) @ '' '' @ String_int (getFullYear tz cd) @ '': ''
       @ show_nat count @ '' item'' @ (if count \<noteq> 1 then ''s'' else []) @ '' watched''"

definition render_cell :: "int \<Rightarrow> theme \<Rightarrow> nat \<Rightarrow> (string \<times> grouped_item list) list \<Rightarrow> StreakResult
                            \<Rightarrow> string \<Rightarrow> int \<Rightarrow> int \<Rightarrow> int \<Rightarrow> int \<Rightarrow> int \<Rightarrow> cell_group list" where
  "render_cell tz t maxCnt itemsPerDay streak username svgWidth displayYear start dy week =
     (let cd = cellDate start dy week;
          tooltipDate = getLocalDateString tz cd;
          itemsForDay = (case map_of itemsPerDay tooltipDate of Some items \<Rightarrow> items | None \<Rightarrow> []);
          count = length itemsForDay;
          color = getColor t maxCnt count;
          x = week * (14 + 3);
          y = dy * (14 + 3)
      in if isOutsideYear displayYear cd then []
         else
           let title = tooltipTitle tz cd count;
               tooltipHeight = 38 + int (length itemsForDay) * 18;
               formattedItems = map formatItem itemsForDay;
               tooltipWidth = max 280 (Max (set (map (\<lambda>s. int (length s) * 7) (title # formattedItems))));
               tooltipX = min x (svgWidth - 51 - tooltipWidth - 10)
           in [\<lparr>cell_href = ''https://trakt.tv/users/'' @ username @ ''/history'',
                 cell_class = (if isStreakCell streak tooltipDate then ''cell streak-cell'' else ''cell''),
                 cell_x = x, cell_y = y, cell_fill = color,
                 tooltip_x = tooltipX, tooltip_y = y - tooltipHeight - 8,
                 tooltip_width = tooltipWidth, tooltip_height = tooltipHeight,
                 tooltip_title = escapeXml (Some title),
                 tooltip_lines = map (\<lambda>item. escapeXml (Some (formatItem item))) itemsForDay\<rparr>])"

definition SVG_WIDTH :: "int \<Rightarrow> string \<Rightarrow> int" where
  "SVG_WIDTH displayYear weekStart = max 1000 (totalWeeks displayYear weekStart * (14 + 3) + 100)"

definition generateSvg_cells :: "int \<Rightarrow> entry list \<Rightarrow> string \<Rightarrow> string \<Rightarrow> int \<Rightarrow> string
                                   \<Rightarrow> grid_fault + cell_group list" where
  "generateSvg_cells tz entries themeName username displayYear weekStart =
     (let es = sortedEntries tz displayYear entries;
          streak = calculateStreak tz es;
          itemsPerDay = groupEntriesByDate tz es;
          start = startDate displayYear weekStart;
          tw = totalWeeks displayYear weekStart
      in case generateSvg_grid tz entries displayYear weekStart of
           Inl fault \<Rightarrow> Inl fault
         | Inr st \<Rightarrow>
             Inr (concat (map (\<lambda>dy. concat (map (\<lambda>week.
                    render_cell tz (themes themeName) (maxCount st) itemsPerDay streak username
                      (SVG_WIDTH displayYear weekStart) displayYear start dy week)
                    [0..tw - 1])) [0..6])))"

subsection \<open>standalone.js: the first renderer (percentile colours, cells with an opacity)\<close>

record DayCountStats =
  p25 :: nat
  p50 :: nat
  p75 :: nat
  p90 :: nat

definition calculateColorIntensity :: "nat \<Rightarrow> DayCountStats \<Rightarrow> nat" where
  "calculateColorIntensity dayCount stats =
     (if dayCount = 0 then 0
      else if dayCount \<le> p25 stats then 1
      else if dayCount \<le> p50 stats then 2
      else if dayCount \<le> p75 stats then 3
      else if dayCount \<le> p90 stats then 4
      else 4)"

definition escape_entity_standalone :: "char \<Rightarrow> string" where
  "escape_entity_standalone c =
     (if c = CHR ''<'' then ''&lt;''
      else if c = CHR ''>'' then ''&gt;''
      else if c = CHR ''&'' then ''&amp;''
      else if c = CHR 0x27 then ''&#39;''
      else if c = CHR 0x22 then ''&quot;''
      else [c])"

definition escapeXml_standalone :: "string option \<Rightarrow> string" where
  "escapeXml_standalone unsafe =
     (case unsafe of None \<Rightarrow> [] | Some s \<Rightarrow> concat (map escape_entity_standalone s))"






definition pad_zeros :: "nat \<Rightarrow> string \<Rightarrow> string" where
  "pad_zeros n s = replicate (n - length s) (CHR ''0'') @ s"

definition toISODate :: "int \<Rightarrow> string" where
  "toISODate t =
     (let y = YearFromTime t
      in (if 0 \<le> y \<and> y \<le> 9999 then pad_zeros 4 (show_nat (nat y))
          else (if y < 0 then ''-'' else ''+'') @ pad_zeros 6 (show_nat (nat (abs y))))
         @ ''-'' @ pad_zeros 2 (show_nat (nat (MonthFromTime t + 1)))
         @ ''-'' @ pad_zeros 2 (show_nat (nat (DateFromTime t))))"




subsection \<open>generator: the document of generateSvg\<close>

text \<open>
  \<open>generateSvg\<close> builds one template string. Its text is fixed; what varies are the values
  interpolated into it, collected here in \<open>svg_values\<close>, and the template itself is the
  parameter \<open>template\<close> of \<open>generateSvg\<close>. What the function reads besides its arguments is
  explicit: the clock (only for the default of \<open>year\<close>), the time zone, the font files, and
  the module variable \<open>embeddedFonts\<close> that caches them between calls.
  \<open>Math.round((count / maxWeeklyCount) * 45)\<close> is computed in double precision; it is the
  parameter \<open>round45\<close>.
\<close>

record svg_options =
  theme_opt :: "string option"
  year_opt :: "int option"
  weekStart_opt :: "string option"
  profileImage_opt :: "string option"
  displayName_opt :: "string option"
  username_opt :: "string option"
  usernameGradient_opt :: "bool option"
  logoBase64_opt :: "string option"
  contentType_opt :: "string option"
  moviesCount_opt :: "int option"
  episodesCount_opt :: "int option"
  followers_opt :: "int option"

record js_env =
  clock :: int
  tzOffset :: int
  fontFiles :: "string \<Rightarrow> string option"

type_synonym fonts = "(string \<times> string) list"

definition loadFontsBase64 :: "js_env \<Rightarrow> fonts" where
  "loadFontsBase64 env =
     concat (map (\<lambda>(weight, filename).
               case fontFiles env filename of
                 Some fontData \<Rightarrow> [(weight, ''data:font/woff2;base64,'' @ fontData)]
               | None \<Rightarrow> [])
             [(''regular'', ''Inter-Regular.woff2''), (''medium'', ''Inter-Medium.woff2''),
              (''semibold'', ''Inter-SemiBold.woff2''), (''bold'', ''Inter-Bold.woff2'')])"

definition getEmbeddedFonts :: "js_env \<Rightarrow> fonts option \<Rightarrow> fonts \<times> fonts option" where
  "getEmbeddedFonts env embeddedFonts =
     (case embeddedFonts of
        None \<Rightarrow> (loadFontsBase64 env, Some (loadFontsBase64 env))
      | Some loaded \<Rightarrow> (loaded, Some loaded))"

definition generateFontFaceCSS :: "fonts \<Rightarrow> string option list" where
  "generateFontFaceCSS fs =
     (if fs = [] then []
      else [map_of fs ''regular'', map_of fs ''medium'', map_of fs ''semibold'', map_of fs ''bold''])"

record stat_bar =
  bar_x :: int
  bar_count :: nat
  bar_height :: int
  bar_day :: string

record month_label =
  month_x :: int
  month_name :: string

record svg_values =
  v_width :: int
  v_height :: int
  v_fontFaces :: "string option list"
  v_theme :: theme
  v_username :: string
  v_profileImage :: "string option"
  v_displayName :: string
  v_usernameEscaped :: string
  v_nameFill :: string
  v_moviesCount :: "int option"
  v_episodesCount :: "int option"
  v_followers :: "int option"
  v_logo :: "(int \<times> string) option"
  v_displayYear :: int
  v_totalItems :: nat
  v_itemLabel :: string
  v_daysActive :: nat
  v_bars :: "stat_bar list"
  v_streak :: StreakResult
  v_legendX :: int
  v_months :: "month_label list"
  v_dayLetters :: "string list"
  v_cells :: "cell_group list"

definition truthy_string :: "string option \<Rightarrow> string option" where
  "truthy_string s = (case s of Some v \<Rightarrow> if v = [] then None else Some v | None \<Rightarrow> None)"

definition positive :: "int \<Rightarrow> int option" where
  "positive n = (if n > 0 then Some n else None)"

definition weeklyDistribution :: "int \<Rightarrow> entry list \<Rightarrow> nat list" where
  "weeklyDistribution tz es =
     foldl (\<lambda>wd e. wd[nat (getDay tz (date e)) := wd ! nat (getDay tz (date e)) + 1])
       [0, 0, 0, 0, 0, 0, 0] es"

definition weekly_bars :: "(nat \<Rightarrow> nat \<Rightarrow> int) \<Rightarrow> string \<Rightarrow> nat list \<Rightarrow> stat_bar list" where
  "weekly_bars round45 weekStart wd =
     (let maxWeeklyCount = Max (set wd);
          letters = (if weekStart = ''monday'' then [''M'', ''T'', ''W'', ''T'', ''F'', ''S'', ''S'']
                     else [''S'', ''M'', ''T'', ''W'', ''T'', ''F'', ''S''])
      in map (\<lambda>i. let dayIndex = (if weekStart = ''monday'' then (i + 1) mod 7 else i);
                      count = wd ! dayIndex;
                      barHeight = (if maxWeeklyCount > 0 then round45 count maxWeeklyCount else 0)
                  in \<lparr>bar_x = 20 + int i * 24, bar_count = count, bar_height = barHeight,
                      bar_day = letters ! i\<rparr>)
           [0..<7])"

definition month_labels :: "int \<Rightarrow> int \<Rightarrow> month_label list" where
  "month_labels displayYear start =
     concat (map (\<lambda>i. let firstDayOfMonth = Date_UTC displayYear (int i) 1 0 0 0;
                          daysSinceStart = (firstDayOfMonth - start) div msPerDay
                      in if daysSinceStart < 0 then []
                         else [\<lparr>month_x = (daysSinceStart div 7) * (14 + 3), month_name = MONTHS ! i\<rparr>])
               [0..<12])"

definition day_letters :: "string \<Rightarrow> string list" where
  "day_letters weekStart =
     map (\<lambda>d. take 1 d)
       (if weekStart = ''monday'' then [''Mon'', ''Tue'', ''Wed'', ''Thu'', ''Fri'', ''Sat'', ''Sun'']
        else [''Sun'', ''Mon'', ''Tue'', ''Wed'', ''Thu'', ''Fri'', ''Sat''])"

text \<open>
  A theme name that the table of themes only inherits is truthy and has no \<open>colors\<close>: the
  first part of the document is built up to the font faces, which loads the fonts, and the
  first read of \<open>t.colors[3]\<close> for the bars of the weekly distribution raises a TypeError.
\<close>

datatype document_fault = GridFault grid_fault | ThemeTypeError

definition inherited_names :: "string list" where
  "inherited_names =
     [''constructor'', ''toString'', ''toLocaleString'', ''valueOf'', ''hasOwnProperty'',
      ''isPrototypeOf'', ''propertyIsEnumerable'', ''__proto__'', ''__defineGetter__'',
      ''__defineSetter__'', ''__lookupGetter__'', ''__lookupSetter__'']"

definition generateSvg :: "(svg_values \<Rightarrow> string) \<Rightarrow> (nat \<Rightarrow> nat \<Rightarrow> int) \<Rightarrow> js_env \<Rightarrow> fonts option
                             \<Rightarrow> entry list \<Rightarrow> svg_options \<Rightarrow> (document_fault + string) \<times> fonts option" where
  "generateSvg template round45 env embeddedFonts entries options =
     (let tz = tzOffset env;
          themeName = (case theme_opt options of Some n \<Rightarrow> n | None \<Rightarrow> ''dark'');
          displayYear = (case year_opt options of Some y \<Rightarrow> y | None \<Rightarrow> getFullYear tz (clock env));
          weekStart = (case weekStart_opt options of Some w \<Rightarrow> w | None \<Rightarrow> ''sunday'');
          displayName = (case displayName_opt options of Some n \<Rightarrow> n | None \<Rightarrow> []);
          username = (case username_opt options of Some n \<Rightarrow> n | None \<Rightarrow> []);
          usernameGradient = (case usernameGradient_opt options of Some b \<Rightarrow> b | None \<Rightarrow> True);
          contentType = (case contentType_opt options of Some c \<Rightarrow> c | None \<Rightarrow> ''all'');
          moviesCnt = (case moviesCount_opt options of Some n \<Rightarrow> n | None \<Rightarrow> 0);
          episodesCnt = (case episodesCount_opt options of Some n \<Rightarrow> n | None \<Rightarrow> 0);
          followers = (case followers_opt options of Some n \<Rightarrow> n | None \<Rightarrow> 0);
          es = sortedEntries tz displayYear entries;
          t = themes themeName;
          svgWidth = SVG_WIDTH displayYear weekStart
      in case generateSvg_cells tz entries themeName username displayYear weekStart of
           Inl fault \<Rightarrow> (Inl (GridFault fault), embeddedFonts)
         | Inr cells \<Rightarrow>
             let (loaded, embeddedFonts') = getEmbeddedFonts env embeddedFonts
             in if themeName \<in> set inherited_names then (Inl ThemeTypeError, embeddedFonts')
                else
                (Inr (template
                   \<lparr>v_width = svgWidth, v_height = 290,
                    v_fontFaces = generateFontFaceCSS loaded,
                    v_theme = t,
                    v_username = username,
                    v_profileImage = truthy_string (profileImage_opt options),
                    v_displayName = escapeXml (Some displayName),
                    v_usernameEscaped = escapeXml (Some username),
                    v_nameFill = (if usernameGradient then ''url(#usernameGradient)'' else text_colour t),
                    v_moviesCount = positive moviesCnt,
                    v_episodesCount = positive episodesCnt,
                    v_followers = positive followers,
                    v_logo = map_option (\<lambda>logo. (svgWidth - 117, logo))
                               (truthy_string (logoBase64_opt options)),
                    v_displayYear = displayYear,
                    v_totalItems = length es,
                    v_itemLabel = (if contentType = ''movies'' then ''Movies''
                                   else if contentType = ''shows'' then ''Episodes'' else ''Items''),
                    v_daysActive = calculateDaysActive tz es,
                    v_bars = weekly_bars round45 weekStart (weeklyDistribution tz es),
                    v_streak = calculateStreak tz es,
                    v_legendX = svgWidth - 200,
                    v_months = month_labels displayYear (startDate displayYear weekStart),
                    v_dayLetters = day_letters weekStart,
                    v_cells = cells\<rparr>),
                 embeddedFonts'))"

section \<open>Notions and sample data for the properties\<close>

subsection \<open>Sample data\<close>

definition movie_at :: "int \<Rightarrow> entry" where
  "movie_at t = \<lparr>date = t, title = ''Dune'', episodeTitle = None, episode = None,
                 year = 2021, etype = ''movie'', rating = None\<rparr>"

definition env_sample :: "int \<Rightarrow> js_env" where
  "env_sample now = \<lparr>clock = now, tzOffset = 0, fontFiles = (\<lambda>filename. None)\<rparr>"

definition options_sample :: svg_options where
  "options_sample =
     \<lparr>theme_opt = Some ''light'', year_opt = Some 2024, weekStart_opt = Some ''monday'',
      profileImage_opt = None, displayName_opt = Some ''L & R'', username_opt = Some ''lrs'',
      usernameGradient_opt = None, logoBase64_opt = None, contentType_opt = None,
      moviesCount_opt = Some 1, episodesCount_opt = None, followers_opt = None\<rparr>"
subsection \<open>Auxiliary notions for the grid proofs\<close>

definition grid_shape :: "int \<Rightarrow> grid \<Rightarrow> bool" where
  "grid_shape tw g = (length g = 7 \<and> (\<forall>row \<in> set g. length row = nat tw))"

definition in_range :: "int \<Rightarrow> int \<Rightarrow> entry \<Rightarrow> bool" where
  "in_range start tw e = (0 \<le> (date e - start) div msPerDay div 7 \<and> (date e - start) div msPerDay div 7 < tw)"

subsection \<open>Auxiliary notions for the escaping proofs\<close>

definition reserved :: "char set" where
  "reserved = {CHR ''<'', CHR ''>'', CHR ''&'', CHR 0x27, CHR 0x22}"

definition entities :: "string set" where
  "entities = {''&lt;'', ''&gt;'', ''&amp;'', ''&apos;'', ''&quot;''}"

definition entities_standalone :: "string set" where
  "entities_standalone = {''&lt;'', ''&gt;'', ''&amp;'', ''&#39;'', ''&quot;''}"

definition entity_like :: "string \<Rightarrow> bool" where
  "entity_like e = (\<exists>r. e = CHR ''&'' # r \<and> CHR ''&'' \<notin> set r
                      \<and> (\<forall>c \<in> set e. c \<notin> {CHR ''<'', CHR ''>'', CHR 0x27, CHR 0x22}))"

subsection \<open>Auxiliary notions for processTraktHistory\<close>

definition wf_item :: "raw_item \<Rightarrow> bool" where
  "wf_item item =
     ((item_type item = ''episode'' \<longrightarrow> item_episode item \<noteq> None \<and> item_show item \<noteq> None)
      \<and> (item_type item = ''movie'' \<longrightarrow> item_movie item \<noteq> None))"

definition kept :: "(string \<Rightarrow> int option) \<Rightarrow> int \<Rightarrow> int option \<Rightarrow> raw_item \<Rightarrow> bool" where
  "kept newDate tz selectedYear item =
     ((case newDate (watched_at item) of
         Some d \<Rightarrow> Some (getFullYear tz d) = selectedYear
       | None \<Rightarrow> False)
      \<and> (item_type item = ''episode'' \<or> item_type item = ''movie''))"

text \<open>
  The year counts that \<open>processTraktHistory\<close> builds first, and the number of records of
  a history whose local year is \<open>y\<close> (\<open>None\<close> for the records with an unparseable date).
\<close>

definition yearCounts :: "(string \<Rightarrow> int option) \<Rightarrow> int \<Rightarrow> raw_item list \<Rightarrow> (int option \<times> nat) list" where
  "yearCounts newDate tz history =
     foldl (\<lambda>yc item. yearCount_set yc (entryYear newDate tz item)) [] history"

definition items_in :: "(string \<Rightarrow> int option) \<Rightarrow> int \<Rightarrow> raw_item list \<Rightarrow> int option \<Rightarrow> nat" where
  "items_in newDate tz history y = length (filter (\<lambda>item. entryYear newDate tz item = y) history)"

definition raw_sample :: "string \<Rightarrow> string \<Rightarrow> raw_item" where
  "raw_sample w ty =
     \<lparr>watched_at = w, item_type = ty, item_episode = None, item_show = None,
      item_movie = Some \<lparr>movie_title = ''Heat'', movie_year = 1995, movie_rating = None\<rparr>\<rparr>"

definition newDate_sample :: "string \<Rightarrow> int option" where
  "newDate_sample w = (if w = ''2024-01-01T00:00:00.000Z'' then Some 1704067200000 else None)"

definition history_sample :: "raw_item list" where
  "history_sample =
     [raw_sample ''2024-01-01T00:00:00.000Z'' ''movie'', raw_sample ''yesterday'' ''movie'',
      raw_sample ''2024-01-01T00:00:00.000Z'' ''season'']"

subsection \<open>Auxiliary notions for the document\<close>

text \<open>
  The text of the element of the document that shows the number of active days
  (\<open>${daysActive} Days Active\<close>), and an environment with a given time zone and font files.
\<close>

definition daysActive_line :: "svg_values \<Rightarrow> string" where
  "daysActive_line v = show_nat (v_daysActive v) @ '' Days Active''"

definition env_zone :: "int \<Rightarrow> (string \<Rightarrow> string option) \<Rightarrow> js_env" where
  "env_zone tz files = \<lparr>clock = 1704067200000, tzOffset = tz, fontFiles = files\<rparr>"

section \<open>Properties of the date runtime\<close>

text \<open>
  \<open>YearFromTime\<close> is the year whose days contain the instant; the fields of a date
  determine its day number (\<open>MakeDay_components\<close>), and the local day string of an
  instant in a four-digit year parses to the UTC midnight of its local day
  (\<open>Date_parse_getLocalDateString\<close>).
\<close>

lemma DayFromYear_less: "y < y' \<Longrightarrow> DayFromYear y < DayFromYear y'"
proof -
  assume "y < y'"
  then have "y + 1 \<le> y'" by simp
  then show ?thesis
  proof (induction y' rule: int_ge_induct)
    case base
    then show ?case using DayFromYear_Suc[of y] DaysInYear_bounds(1)[of y] by simp
  next
    case (step i)
    then show ?case using DayFromYear_Suc[of i] DaysInYear_bounds(1)[of i] by simp
  qed
qed

lemma DayFromYear_le: "y \<le> y' \<Longrightarrow> DayFromYear y \<le> DayFromYear y'"
  using DayFromYear_less[of y y'] by (cases "y = y'") auto

lemma year_from_spec:
  "DayFromYear y \<le> d \<Longrightarrow>
   DayFromYear (year_from d y) \<le> d \<and> d < DayFromYear (year_from d y + 1)"
proof (induction d y rule: year_from.induct)
  case (1 d y)
  show ?case
  proof (cases "DayFromYear (y + 1) \<le> d")
    case True
    then show ?thesis using 1 by (simp add: year_from.simps[of d y])
  next
    case False
    then show ?thesis using 1 by (simp add: year_from.simps[of d y])
  qed
qed

lemma year_unique:
  assumes "DayFromYear y \<le> d" "d < DayFromYear (y + 1)"
    and "DayFromYear y' \<le> d" "d < DayFromYear (y' + 1)"
  shows "y = y'"
proof (rule ccontr)
  assume "y \<noteq> y'"
  then consider "y + 1 \<le> y'" | "y' + 1 \<le> y" by linarith
  then show False
  proof cases
    case 1
    then show False using DayFromYear_le[of "y + 1" y'] assms by linarith
  next
    case 2
    then show False using DayFromYear_le[of "y' + 1" y] assms by linarith
  qed
qed

lemma div_lower: "0 < c \<Longrightarrow> c * (a div c) \<le> a" for a c :: int
  using mult_div_mod_eq[of c a] pos_mod_sign[of c a] by linarith

lemma div_upper: "0 < c \<Longrightarrow> a < c * (a div c) + c" for a c :: int
  using mult_div_mod_eq[of c a] pos_mod_bound[of c a] by linarith

lemma leap_term_bound:
  "400 * ((k + 1) div 4 - (k + 69) div 100 + (k + 369) div 400) \<le> 97 * k + 592" for k :: int
proof -
  have a: "4 * ((k + 1) div 4) \<le> k + 1" by (rule div_lower) simp
  have b: "k + 69 < 100 * ((k + 69) div 100) + 100" by (rule div_upper) simp
  have c: "400 * ((k + 369) div 400) \<le> k + 369" by (rule div_lower) simp
  have "4 * x \<le> k + 1 \<Longrightarrow> k + 69 < 100 * y + 100 \<Longrightarrow> 400 * z \<le> k + 369
          \<Longrightarrow> 400 * (x - y + z) \<le> 97 * k + 592" for x y z :: int
    by (simp add: algebra_simps)
  then show ?thesis using a b c by blast
qed

lemma DayFromYear_1970_plus:
  "DayFromYear (1970 + k) = 365 * k + ((k + 1) div 4 - (k + 69) div 100 + (k + 369) div 400)"
  by (simp add: DayFromYear_def algebra_simps)

lemma start_bound_pos: "0 \<le> k \<Longrightarrow> DayFromYear (1970 + k) \<le> 366 * k"
proof -
  assume k: "0 \<le> k"
  consider "k = 0" | "k = 1" | "2 \<le> k" using k by linarith
  then show ?thesis
  proof cases
    case 1 then show ?thesis by (simp add: DayFromYear_def)
  next
    case 2 then show ?thesis by (simp add: DayFromYear_def)
  next
    case 3
    then show ?thesis unfolding DayFromYear_1970_plus using leap_term_bound[of k] by linarith
  qed
qed

lemma start_bound_neg: "k \<le> 0 \<Longrightarrow> DayFromYear (1970 + k) \<le> 365 * k"
proof -
  assume k: "k \<le> 0"
  consider "k = 0" | "k = - 1" | "k \<le> - 2" using k by linarith
  then show ?thesis
  proof cases
    case 1 then show ?thesis by (simp add: DayFromYear_def)
  next
    case 2 then show ?thesis by (simp add: DayFromYear_def)
  next
    case 3
    then show ?thesis unfolding DayFromYear_1970_plus using leap_term_bound[of k] by linarith
  qed
qed

lemma start_bound:
  "DayFromYear (1970 + (if 0 \<le> d then d div 366 else d div 365)) \<le> d"
proof (cases "0 \<le> d")
  case True
  then have "0 \<le> d div 366" by simp
  then show ?thesis using True start_bound_pos[of "d div 366"] div_lower[of 366 d] by simp
next
  case False
  then have "d div 365 \<le> 0" using div_neg_pos_less0[of d 365] by simp
  then show ?thesis using False start_bound_neg[of "d div 365"] div_lower[of 365 d] by simp
qed

lemma YearFromDay_spec:
  "DayFromYear (YearFromDay d) \<le> d \<and> d < DayFromYear (YearFromDay d + 1)"
  unfolding YearFromDay_def by (rule year_from_spec[OF start_bound])

lemma YearFromDay_eq:
  "DayFromYear y \<le> d \<Longrightarrow> d < DayFromYear (y + 1) \<Longrightarrow> YearFromDay d = y"
  using YearFromDay_spec[of d] year_unique[of "YearFromDay d" d y] by simp

lemma YearFromTime_spec:
  "DayFromYear (YearFromTime t) \<le> Day t \<and> Day t < DayFromYear (YearFromTime t + 1)"
  unfolding YearFromTime_def by (rule YearFromDay_spec)

lemma YearFromTime_eq:
  "DayFromYear y \<le> Day t \<Longrightarrow> Day t < DayFromYear (y + 1) \<Longrightarrow> YearFromTime t = y"
  unfolding YearFromTime_def by (rule YearFromDay_eq)

lemma DaysInYear_leap: "DaysInYear y = 365 + (if DaysInYear y = 366 then 1 else 0)"
  by (simp add: DaysInYear_def)

lemma DayWithinYear_bounds:
  "0 \<le> DayWithinYear t" "DayWithinYear t < 365 + InLeapYear t"
proof -
  show "0 \<le> DayWithinYear t" using YearFromTime_spec[of t] by (simp add: DayWithinYear_def)
  show "DayWithinYear t < 365 + InLeapYear t"
    using YearFromTime_spec[of t] DayFromYear_Suc[of "YearFromTime t"]
      DaysInYear_leap[of "YearFromTime t"]
    by (simp add: DayWithinYear_def InLeapYear_def)
qed

lemma MonthFromTime_range: "0 \<le> MonthFromTime t \<and> MonthFromTime t \<le> 11"
  by (simp add: MonthFromTime_def Let_def)

lemma MonthStart_DateFromTime:
  "MonthStart (MonthFromTime t) (InLeapYear t) + DateFromTime t - 1 = DayWithinYear t"
  by (simp add: MonthStart_def DateFromTime_def MonthFromTime_def Let_def)

lemma MakeDay_components:
  "MakeDay (YearFromTime t) (MonthFromTime t) (DateFromTime t) = Day t"
proof -
  have m: "MonthFromTime t div 12 = 0" "MonthFromTime t mod 12 = MonthFromTime t"
    using MonthFromTime_range[of t] by simp_all
  show ?thesis
    using MonthStart_DateFromTime[of t]
    by (simp add: MakeDay_def Let_def m InLeapYear_def DayWithinYear_def)
qed

lemma MakeDay_shift:
  "MakeDay yr month (dt + k) = MakeDay yr month dt + k"
  by (simp add: MakeDay_def Let_def)

lemma Day_TimeWithinDay: "Day t * msPerDay + TimeWithinDay t = t"
  by (simp add: Day_def TimeWithinDay_def)

text \<open>Changing the day of the month by \<open>k\<close> moves the instant by \<open>k\<close> whole days.\<close>

lemma setUTCDate_shift: "setUTCDate t (getUTCDate t + k) = t + k * msPerDay"
proof -
  have "MakeDay (YearFromTime t) (MonthFromTime t) (DateFromTime t + k) = Day t + k"
    using MakeDay_shift[of "YearFromTime t" "MonthFromTime t" "DateFromTime t" k]
    by (simp add: MakeDay_components)
  then show ?thesis
    using Day_TimeWithinDay[of t]
    by (simp add: setUTCDate_def getUTCDate_def MakeDate_def algebra_simps)
qed

lemma digit_char_props: "k < 10 \<Longrightarrow> is_digit (digit_char k) \<and> digit_val (digit_char k) = k"
  by (simp add: is_digit_def digit_val_def digit_char_def)

lemma digit_char_0: "digit_char 0 = CHR ''0''"
  by code_simp

lemma show_nat_1: "n < 10 \<Longrightarrow> show_nat n = [digit_char n]"
  by (simp add: show_nat.simps[of n])

lemma show_nat_2: "10 \<le> n \<Longrightarrow> n < 100 \<Longrightarrow> show_nat n = [digit_char (n div 10), digit_char (n mod 10)]"
  by (simp add: show_nat.simps[of n] show_nat_1)

lemma show_nat_3:
  "100 \<le> n \<Longrightarrow> n < 1000 \<Longrightarrow>
   show_nat n = [digit_char (n div 100), digit_char (n div 10 mod 10), digit_char (n mod 10)]"
proof -
  assume a: "100 \<le> n" "n < 1000"
  have "10 \<le> n div 10" "n div 10 < 100" using a by simp_all
  then have "show_nat (n div 10) = [digit_char (n div 10 div 10), digit_char (n div 10 mod 10)]"
    by (rule show_nat_2)
  moreover have "n div 10 div 10 = n div 100" by (simp add: div_mult2_eq[symmetric])
  ultimately show ?thesis using a by (simp add: show_nat.simps[of n])
qed

lemma show_nat_4:
  "1000 \<le> n \<Longrightarrow> n < 10000 \<Longrightarrow>
   show_nat n = [digit_char (n div 1000), digit_char (n div 100 mod 10),
                 digit_char (n div 10 mod 10), digit_char (n mod 10)]"
proof -
  assume a: "1000 \<le> n" "n < 10000"
  have "100 \<le> n div 10" "n div 10 < 1000" using a by simp_all
  then have "show_nat (n div 10) =
      [digit_char (n div 10 div 100), digit_char (n div 10 div 10 mod 10), digit_char (n div 10 mod 10)]"
    by (rule show_nat_3)
  moreover have "n div 10 div 10 = n div 100" "n div 10 div 100 = n div 1000"
    by (simp_all add: div_mult2_eq[symmetric])
  ultimately show ?thesis using a by (simp add: show_nat.simps[of n])
qed

lemma padStart2_show_nat:
  "n < 100 \<Longrightarrow> padStart2 (show_nat n) = [digit_char (n div 10), digit_char (n mod 10)]"
proof (cases "n < 10")
  case True
  then show ?thesis by (simp add: padStart2_def show_nat_1 digit_char_0)
next
  case False
  assume "n < 100"
  then show ?thesis using False by (simp add: padStart2_def show_nat_2)
qed

lemma digits2_val: "n < 100 \<Longrightarrow> 10 * (n div 10) + n mod 10 = n" for n :: nat
  by simp

lemma digits4_val:
  "10 * (10 * (10 * (n div 1000) + n div 100 mod 10) + n div 10 mod 10) + n mod 10 = n" for n :: nat
proof -
  have a: "n div 100 = 10 * (n div 1000) + n div 100 mod 10"
    using div_mult_mod_eq[of "n div 100" 10] by (simp add: div_mult2_eq[symmetric] mult.commute)
  have b: "n div 10 = 10 * (n div 100) + n div 10 mod 10"
    using div_mult_mod_eq[of "n div 10" 10] by (simp add: div_mult2_eq[symmetric] mult.commute)
  have c: "n = 10 * (n div 10) + n mod 10" by simp
  show ?thesis using a b c by simp
qed

lemma DateFromTime_range: "1 \<le> DateFromTime t \<and> DateFromTime t \<le> 31"
  using DayWithinYear_bounds[of t]
  by (auto simp add: DateFromTime_def MonthFromTime_def Let_def InLeapYear_def split: if_splits)

lemma Date_parse_iso:
  assumes "y1 < 10" "y2 < 10" "y3 < 10" "y4 < 10" "m1 < 10" "m2 < 10" "d1 < 10" "d2 < 10"
  shows "Date_parse ([digit_char y1, digit_char y2, digit_char y3, digit_char y4] @ ''-''
            @ [digit_char m1, digit_char m2] @ ''-'' @ [digit_char d1, digit_char d2]) =
         (let y = 10 * (10 * (10 * y1 + y2) + y3) + y4; m = 10 * m1 + m2; d = 10 * d1 + d2
          in if 1 \<le> m \<and> m \<le> 12 \<and> 1 \<le> d \<and> d \<le> 31
             then Some (MakeDate (MakeDay (int y) (int m - 1) (int d)) 0) else None)"
  using assms by (simp add: Date_parse_def digit_char_props digits_val_def Let_def)

lemma Date_parse_getLocalDateString:
  assumes "1000 \<le> getFullYear tz t" "getFullYear tz t \<le> 9999"
  shows "Date_parse (getLocalDateString tz t) = Some (Day (LocalTime tz t) * msPerDay)"
proof -
  define y where "y = nat (getFullYear tz t)"
  define m where "m = nat (getMonth tz t + 1)"
  define d where "d = nat (getDate tz t)"
  have yr: "1000 \<le> y" "y < 10000" "int y = getFullYear tz t" using assms by (simp_all add: y_def)
  have mr: "1 \<le> m" "m \<le> 12" "int m - 1 = getMonth tz t"
    using MonthFromTime_range[of "LocalTime tz t"] by (auto simp add: m_def getMonth_def)
  have dr: "1 \<le> d" "d \<le> 31" "int d = getDate tz t"
    using DateFromTime_range[of "LocalTime tz t"] by (auto simp add: d_def getDate_def)
  have sy: "String_int (getFullYear tz t) =
      [digit_char (y div 1000), digit_char (y div 100 mod 10), digit_char (y div 10 mod 10), digit_char (y mod 10)]"
    using assms show_nat_4[OF yr(1,2)] by (simp add: String_int_def y_def)
  have sm: "padStart2 (String_int (getMonth tz t + 1)) = [digit_char (m div 10), digit_char (m mod 10)]"
    using mr padStart2_show_nat[of m] MonthFromTime_range[of "LocalTime tz t"]
    by (simp add: String_int_def m_def getMonth_def)
  have sd: "padStart2 (String_int (getDate tz t)) = [digit_char (d div 10), digit_char (d mod 10)]"
    using dr padStart2_show_nat[of d] DateFromTime_range[of "LocalTime tz t"]
    by (simp add: String_int_def d_def getDate_def)
  have yd: "y div 1000 < 10" using yr by simp
  have s: "getLocalDateString tz t =
      [digit_char (y div 1000), digit_char (y div 100 mod 10), digit_char (y div 10 mod 10), digit_char (y mod 10)]
        @ ''-'' @ [digit_char (m div 10), digit_char (m mod 10)] @ ''-''
        @ [digit_char (d div 10), digit_char (d mod 10)]"
    unfolding getLocalDateString_def sy sm sd by simp
  have e: "10 * (m div 10) + m mod 10 = m" "10 * (d div 10) + d mod 10 = d" by simp_all
  have "Date_parse (getLocalDateString tz t) =
         (let y' = 10 * (10 * (10 * (y div 1000) + y div 100 mod 10) + y div 10 mod 10) + y mod 10;
              m' = 10 * (m div 10) + m mod 10; d' = 10 * (d div 10) + d mod 10
          in if 1 \<le> m' \<and> m' \<le> 12 \<and> 1 \<le> d' \<and> d' \<le> 31
             then Some (MakeDate (MakeDay (int y') (int m' - 1) (int d')) 0) else None)"
    unfolding s by (rule Date_parse_iso) (use yd mr(2) dr(2) in simp_all)
  then have p: "Date_parse (getLocalDateString tz t) = Some (MakeDate (MakeDay (int y) (int m - 1) (int d)) 0)"
    unfolding digits4_val e Let_def using mr(1,2) dr(1,2) by simp
  show ?thesis
    unfolding p yr(3) mr(3) dr(3)
    using MakeDay_components[of "LocalTime tz t"]
    by (simp add: getFullYear_def getMonth_def getDate_def MakeDate_def)
qed
section \<open>The loop of calculateStreak\<close>

lemma suffix_last: "suffix c pre \<Longrightarrow> c \<noteq> [] \<Longrightarrow> last c = last pre"
  by (auto simp: suffix_def)

lemma is_run_snoc:
  "is_run (pre @ [x]) h \<longleftrightarrow>
     h \<noteq> [] \<and> successively consecutive h \<and> (suffix h (pre @ [x]) \<or> sublist h pre)"
  unfolding is_run_def sublist_snoc by blast

lemma streak_step_inv:
  assumes inv: "streak_inv pre v" and ne: "pre \<noteq> []"
  shows "streak_inv (pre @ [x]) (streak_step v (last pre) x)"
proof -
  from inv obtain cur g where
    cur: "cur \<noteq> []" "suffix cur pre" "successively consecutive cur"
    and curmax: "\<And>c. suffix c pre \<Longrightarrow> successively consecutive c \<Longrightarrow> length c \<le> length cur"
    and cv: "currentStreak v = length cur" "currentStart v = hd cur"
    and g: "is_run pre g"
    and gmax: "\<And>h. is_run pre h \<Longrightarrow> length h \<le> length g"
    and gv: "maxStreak v = length g" "maxStart v = hd g" "maxEnd v = last g"
    unfolding streak_inv_def by blast
  have lastcur: "last cur = last pre" using cur by (simp add: suffix_last)
  have gne: "g \<noteq> []" and gsub: "sublist g pre" and gch: "successively consecutive g"
    using g by (simp_all add: is_run_def)
  show ?thesis
  proof (cases "diffDays (last pre) x = Some 1")
    case True
    let ?cur = "cur @ [x]"
    have c1: "?cur \<noteq> []" by simp
    have c2: "suffix ?cur (pre @ [x])" using cur(2) by simp
    have c3: "successively consecutive ?cur"
      using cur True lastcur by (simp add: successively_append_iff consecutive_def)
    have c4: "length c \<le> length ?cur"
      if "suffix c (pre @ [x])" "successively consecutive c" for c
    proof (cases "c = []")
      case True then show ?thesis by simp
    next
      case False
      with that(1) obtain zs where zs: "c = zs @ [x]" "suffix zs pre" by auto
      have "successively consecutive zs" using that(2) zs(1) by (simp add: successively_append_iff)
      then have "length zs \<le> length cur" using curmax zs(2) by blast
      then show ?thesis using zs(1) by simp
    qed
    show ?thesis
    proof (cases "length ?cur > length g")
      case big: True
      have r: "is_run (pre @ [x]) ?cur" using c1 c2 c3 by (simp add: is_run_snoc)
      have m: "length h \<le> length ?cur" if "is_run (pre @ [x]) h" for h
      proof -
        from that have h: "h \<noteq> []" "successively consecutive h"
          and d: "suffix h (pre @ [x]) \<or> sublist h pre" unfolding is_run_snoc by blast+
        from d show ?thesis
        proof
          assume "suffix h (pre @ [x])" then show ?thesis using c4 h(2) by blast
        next
          assume "sublist h pre"
          then have "is_run pre h" using h by (simp add: is_run_def)
          then show ?thesis using gmax[of h] big by simp
        qed
      qed
      have v: "streak_step v (last pre) x =
                 v\<lparr>currentStreak := length ?cur, maxStreak := length ?cur,
                   maxStart := hd ?cur, maxEnd := last ?cur\<rparr>"
        using True big cv gv cur(1) by (simp add: streak_step_def Let_def)
      show ?thesis unfolding streak_inv_def
        apply (rule exI[of _ ?cur], rule exI[of _ ?cur])
        using c1 c2 c3 c4 r m cv cur(1) by (simp add: v)
    next
      case small: False
      have r: "is_run (pre @ [x]) g" using gne gsub gch by (simp add: is_run_snoc)
      have m: "length h \<le> length g" if "is_run (pre @ [x]) h" for h
      proof -
        from that have h: "h \<noteq> []" "successively consecutive h"
          and d: "suffix h (pre @ [x]) \<or> sublist h pre" unfolding is_run_snoc by blast+
        from d show ?thesis
        proof
          assume "suffix h (pre @ [x])"
          then have "length h \<le> length ?cur" using c4 h(2) by blast
          then show ?thesis using small by simp
        next
          assume "sublist h pre"
          then have "is_run pre h" using h by (simp add: is_run_def)
          then show ?thesis using gmax[of h] by simp
        qed
      qed
      have v: "streak_step v (last pre) x = v\<lparr>currentStreak := length ?cur\<rparr>"
        using True small cv gv by (simp add: streak_step_def Let_def)
      show ?thesis unfolding streak_inv_def
        apply (rule exI[of _ ?cur], rule exI[of _ g])
        using c1 c2 c3 c4 r m cv gv cur(1) by (simp add: v)
    qed
  next
    case False
    let ?cur = "[x]"
    have c4: "length c \<le> length ?cur"
      if "suffix c (pre @ [x])" "successively consecutive c" for c
    proof (cases "c = []")
      case True then show ?thesis by simp
    next
      case cne: False
      with that(1) obtain zs where zs: "c = zs @ [x]" "suffix zs pre" by auto
      have "zs = []"
      proof (rule ccontr)
        assume z: "zs \<noteq> []"
        then have "last zs = last pre" using zs(2) by (simp add: suffix_last)
        moreover have "consecutive (last zs) x"
          using that(2) zs(1) z by (simp add: successively_append_iff)
        ultimately show False using False by (simp add: consecutive_def)
      qed
      then show ?thesis using zs(1) by simp
    qed
    have r: "is_run (pre @ [x]) g" using gne gsub gch by (simp add: is_run_snoc)
    have m: "length h \<le> length g" if "is_run (pre @ [x]) h" for h
    proof -
      from that have h: "h \<noteq> []" "successively consecutive h"
        and d: "suffix h (pre @ [x]) \<or> sublist h pre" unfolding is_run_snoc by blast+
      from d show ?thesis
      proof
        assume "suffix h (pre @ [x])"
        then have "length h \<le> 1" using c4 h(2) by fastforce
        moreover have "1 \<le> length g" using gne by (cases g) simp_all
        ultimately show ?thesis by simp
      next
        assume "sublist h pre"
        then have "is_run pre h" using h by (simp add: is_run_def)
        then show ?thesis using gmax[of h] by simp
      qed
    qed
    have v: "streak_step v (last pre) x = v\<lparr>currentStreak := 1, currentStart := x\<rparr>"
      using False by (simp add: streak_step_def)
    show ?thesis unfolding streak_inv_def
      apply (rule exI[of _ ?cur], rule exI[of _ g])
      using c4 r m gv by (simp add: v)
  qed
qed

lemma streak_loop_inv:
  "streak_inv pre v \<Longrightarrow> pre \<noteq> [] \<Longrightarrow> streak_inv (pre @ rest) (streak_loop v (last pre) rest)"
proof (induction rest arbitrary: pre v)
  case Nil
  then show ?case by simp
next
  case (Cons x rest)
  have "streak_inv ((pre @ [x]) @ rest) (streak_loop (streak_step v (last pre) x) (last (pre @ [x])) rest)"
    by (rule Cons.IH) (use Cons.prems streak_step_inv in simp_all)
  then show ?case by simp
qed

lemma streak_inv_init:
  "streak_inv [d0] \<lparr>maxStreak = 1, currentStreak = 1, maxStart = d0, maxEnd = d0, currentStart = d0\<rparr>"
proof -
  have a: "length c \<le> 1" if "suffix c [d0]" for c
    using that suffix_length_le[of c "[d0]"] by simp
  have b: "length h \<le> 1" if "is_run [d0] h" for h
    using that sublist_length_le[of h "[d0]"] by (simp add: is_run_def)
  show ?thesis unfolding streak_inv_def
    apply (rule exI[of _ "[d0]"], rule exI[of _ "[d0]"])
    using a b by (simp add: is_run_def)
qed

lemma streak_loop_result:
  fixes d0 rest
  defines "v \<equiv> streak_loop \<lparr>maxStreak = 1, currentStreak = 1, maxStart = d0, maxEnd = d0,
                                 currentStart = d0\<rparr> d0 rest"
  shows "\<exists>g. is_run (d0 # rest) g \<and> (\<forall>h. is_run (d0 # rest) h \<longrightarrow> length h \<le> length g)
             \<and> maxStreak v = length g \<and> maxStart v = hd g \<and> maxEnd v = last g"
proof -
  have "streak_inv ([d0] @ rest) v"
    unfolding v_def using streak_loop_inv[OF streak_inv_init, of d0 rest] by simp
  then show ?thesis unfolding streak_inv_def by auto
qed

lemma Set_from_acc:
  "set (foldl Set_add acc xs) = set acc \<union> set xs \<and> (distinct acc \<longrightarrow> distinct (foldl Set_add acc xs))"
  by (induction xs arbitrary: acc) (auto simp: Set_add_def)

lemma set_Set_from: "set (Set_from xs) = set xs"
  using Set_from_acc[of "[]" xs] by (simp add: Set_from_def)

lemma distinct_Set_from: "distinct (Set_from xs)"
  using Set_from_acc[of "[]" xs] by (simp add: Set_from_def)

lemma uniqueDates_props:
  "sorted (uniqueDates tz entries)" "distinct (uniqueDates tz entries)"
  "set (uniqueDates tz entries) = (\<lambda>e. getLocalDateString tz (date e)) ` set entries"
  by (simp_all add: uniqueDates_def set_Set_from distinct_Set_from)

lemma length_uniqueDates:
  "length (uniqueDates tz entries) = length (Set_from (map (\<lambda>e. getLocalDateString tz (date e)) entries))"
  by (simp add: uniqueDates_def)

lemma uniqueDates_nonempty: "entries \<noteq> [] \<Longrightarrow> uniqueDates tz entries \<noteq> []"
  using uniqueDates_props(3)[of tz entries] by (metis image_is_empty set_empty)

lemma calculateStreak_run:
  assumes "entries \<noteq> []"
  shows "\<exists>g. is_run (uniqueDates tz entries) g
           \<and> (\<forall>h. is_run (uniqueDates tz entries) h \<longrightarrow> length h \<le> length g)
           \<and> calculateStreak tz entries =
               \<lparr>streak_length = length g, streak_startDate = Some (hd g),
                streak_endDate = Some (last g)\<rparr>"
proof -
  obtain d0 rest where ds: "uniqueDates tz entries = d0 # rest"
    using uniqueDates_nonempty[OF assms, of tz] by (cases "uniqueDates tz entries") auto
  show ?thesis
    using streak_loop_result[of d0 rest] assms
    by (auto simp add: calculateStreak_def ds Let_def)
qed

lemma Date_parse_multiple: "Date_parse s = Some p \<Longrightarrow> \<exists>k. p = k * msPerDay"
  by (auto simp add: Date_parse_def Let_def MakeDate_def split: if_splits)

lemma Math_round_div_days: "Math_round_div (k * msPerDay) msPerDay = k"
proof -
  have "2 * (k * msPerDay) + msPerDay = (2 * msPerDay) * k + msPerDay" by simp
  moreover have "0 \<le> msPerDay" "msPerDay < 2 * msPerDay" by (simp_all add: msPerDay_def)
  ultimately show ?thesis unfolding Math_round_div_def by (metis int_div_pos_eq)
qed

lemma consecutive_diff:
  assumes "consecutive a b"
  shows "\<exists>p. Date_parse a = Some p \<and> Date_parse b = Some (p + msPerDay)"
proof -
  from assms obtain p c where pc: "Date_parse a = Some p" "Date_parse b = Some c"
    and r: "Math_round_div (c - p) msPerDay = 1"
    by (auto simp add: consecutive_def diffDays_def split: option.splits)
  obtain k l where kl: "p = k * msPerDay" "c = l * msPerDay"
    using Date_parse_multiple pc by blast
  have "c - p = (l - k) * msPerDay" using kl by (simp add: algebra_simps)
  then have "l - k = 1" using r Math_round_div_days[of "l - k"] by simp
  then have "c = p + msPerDay" using kl by (simp add: algebra_simps)
  then show ?thesis using pc by simp
qed

lemma chain_diff:
  "successively consecutive g \<Longrightarrow> g \<noteq> [] \<Longrightarrow> Date_parse (hd g) = Some a \<Longrightarrow>
   Date_parse (last g) = Some (a + (int (length g) - 1) * msPerDay)"
proof (induction g arbitrary: a)
  case Nil
  then show ?case by simp
next
  case (Cons x g)
  show ?case
  proof (cases g)
    case Nil
    then show ?thesis using Cons.prems by simp
  next
    case (Cons y ys)
    have c: "consecutive x y" and s: "successively consecutive g"
      using Cons.prems(1) Cons by simp_all
    from consecutive_diff[OF c] Cons.prems(3)
    have "Date_parse (hd g) = Some (a + msPerDay)" using Cons by simp
    from Cons.IH[OF s _ this] Cons show ?thesis by (simp add: algebra_simps)
  qed
qed
section \<open>The result of calculateStreak on a non-empty list\<close>

text \<open>
  Claim C9. For a non-empty entry list whose local years have four digits (so that every
  local-day string is an ISO date, the only form whose parse ECMAScript fixes),
  \<open>calculateStreak\<close> returns a length of at least 1, start and end dates that are not
  null and parse to instants \<open>a \<le> b\<close> lying exactly \<open>length - 1\<close> days apart, and a
  length that is at most \<open>calculateDaysActive\<close> of the same entries.
\<close>

theorem calculateStreak_nonempty:
  assumes ne: "entries \<noteq> []"
    and yrs: "\<forall>e \<in> set entries. 1000 \<le> getFullYear tz (date e) \<and> getFullYear tz (date e) \<le> 9999"
  shows "\<exists>s e a b.
           1 \<le> streak_length (calculateStreak tz entries)
         \<and> streak_startDate (calculateStreak tz entries) = Some s
         \<and> streak_endDate (calculateStreak tz entries) = Some e
         \<and> Date_parse s = Some a \<and> Date_parse e = Some b \<and> a \<le> b
         \<and> b - a = (int (streak_length (calculateStreak tz entries)) - 1) * msPerDay
         \<and> streak_length (calculateStreak tz entries) \<le> calculateDaysActive tz entries"
proof -
  let ?ds = "uniqueDates tz entries"
  obtain g where g: "is_run ?ds g"
    and r: "calculateStreak tz entries =
              \<lparr>streak_length = length g, streak_startDate = Some (hd g),
               streak_endDate = Some (last g)\<rparr>"
    using calculateStreak_run[OF ne, of tz] by blast
  have gne: "g \<noteq> []" and sub: "sublist g ?ds" and ch: "successively consecutive g"
    using g by (simp_all add: is_run_def)
  have len: "1 \<le> length g" using gne by (cases g) simp_all
  have "hd g \<in> set g" using gne by simp
  then have "hd g \<in> set ?ds" using sub set_mono_sublist by blast
  then obtain e0 where e0: "e0 \<in> set entries" "hd g = getLocalDateString tz (date e0)"
    using uniqueDates_props(3)[of tz entries] by auto
  define a where "a = Day (LocalTime tz (date e0)) * msPerDay"
  have pa: "Date_parse (hd g) = Some a"
    unfolding e0(2) a_def using yrs e0(1) by (intro Date_parse_getLocalDateString) auto
  define b where "b = a + (int (length g) - 1) * msPerDay"
  have pb: "Date_parse (last g) = Some b"
    unfolding b_def by (rule chain_diff[OF ch gne pa])
  have ab: "a \<le> b" using len by (simp add: b_def msPerDay_def)
  have da: "length g \<le> calculateDaysActive tz entries"
    using sublist_length_le[OF sub] ne by (simp add: calculateDaysActive_def length_uniqueDates)
  show ?thesis
    apply (rule exI[of _ "hd g"], rule exI[of _ "last g"], rule exI[of _ a], rule exI[of _ b])
    using len pa pb ab da by (simp add: r b_def)
qed

theorem calculateStreak_nonempty_witness:
  "\<exists>s e a b.
     1 \<le> streak_length (calculateStreak 0 [movie_at 1704067200000, movie_at 1704153600000])
   \<and> streak_startDate (calculateStreak 0 [movie_at 1704067200000, movie_at 1704153600000]) = Some s
   \<and> streak_endDate (calculateStreak 0 [movie_at 1704067200000, movie_at 1704153600000]) = Some e
   \<and> Date_parse s = Some a \<and> Date_parse e = Some b \<and> a \<le> b
   \<and> b - a = (int (streak_length (calculateStreak 0
                  [movie_at 1704067200000, movie_at 1704153600000])) - 1) * msPerDay
   \<and> streak_length (calculateStreak 0 [movie_at 1704067200000, movie_at 1704153600000])
       \<le> calculateDaysActive 0 [movie_at 1704067200000, movie_at 1704153600000]"
proof -
  have y1: "getFullYear 0 1704067200000 = 2024" by code_simp
  have y2: "getFullYear 0 1704153600000 = 2024" by code_simp
  show ?thesis
    by (rule calculateStreak_nonempty) (simp_all add: movie_at_def y1 y2)
qed

section \<open>calculateStreak finds a longest run\<close>

lemma Date_parse_20240101: "Date_parse ''2024-01-01'' = Some 1704067200000"
  by code_simp

lemma Date_parse_20240102: "Date_parse ''2024-01-02'' = Some 1704153600000"
  by code_simp

lemma Date_parse_20240103: "Date_parse ''2024-01-03'' = Some 1704240000000"
  by code_simp

lemma Date_parse_20240105: "Date_parse ''2024-01-05'' = Some 1704412800000"
  by code_simp

lemma sample_days_sorted:
  "sorted [''2024-01-01'', ''2024-01-02'', ''2024-01-03'', ''2024-01-05'']
   \<and> distinct [''2024-01-01'', ''2024-01-02'', ''2024-01-03'', ''2024-01-05'']"
  by code_simp
lemma sample_local_days:
  "getLocalDateString 21600000 1704045600000 = ''2024-01-01''"
  "getLocalDateString 21600000 1704100000000 = ''2024-01-01''"
  "getLocalDateString 21600000 1704150000000 = ''2024-01-02''"
  "getLocalDateString 21600000 1704240000000 = ''2024-01-03''"
  "getLocalDateString 21600000 1704412800000 = ''2024-01-05''"
  by code_simp+

lemma streak_loop_sample:
  "streak_loop \<lparr>maxStreak = 1, currentStreak = 1, maxStart = ''2024-01-01'',
                maxEnd = ''2024-01-01'', currentStart = ''2024-01-01''\<rparr>
     ''2024-01-01'' [''2024-01-02'', ''2024-01-03'', ''2024-01-05'']
   = \<lparr>maxStreak = 3, currentStreak = 1, maxStart = ''2024-01-01'',
      maxEnd = ''2024-01-03'', currentStart = ''2024-01-05''\<rparr>"
  by (simp add: streak_step_def diffDays_def Date_parse_20240101 Date_parse_20240102
        Date_parse_20240103 Date_parse_20240105 Math_round_div_def msPerDay_def)

lemma sample_days_unique:
  assumes "(\<lambda>e. getLocalDateString tz (date e)) ` set entries =
             {''2024-01-01'', ''2024-01-02'', ''2024-01-03'', ''2024-01-05''}"
  shows "uniqueDates tz entries = [''2024-01-01'', ''2024-01-02'', ''2024-01-03'', ''2024-01-05'']"
proof (rule sorted_distinct_set_unique)
  show "sorted (uniqueDates tz entries)" by (rule uniqueDates_props(1))
  show "distinct (uniqueDates tz entries)" by (rule uniqueDates_props(2))
  show "sorted [''2024-01-01'', ''2024-01-02'', ''2024-01-03'', ''2024-01-05'']"
    by (rule conjunct1[OF sample_days_sorted])
  show "distinct [''2024-01-01'', ''2024-01-02'', ''2024-01-03'', ''2024-01-05'']"
    by (rule conjunct2[OF sample_days_sorted])
  have "set (uniqueDates tz entries) = {''2024-01-01'', ''2024-01-02'', ''2024-01-03'', ''2024-01-05''}"
    unfolding uniqueDates_props(3) by (rule assms)
  also have "\<dots> = set [''2024-01-01'', ''2024-01-02'', ''2024-01-03'', ''2024-01-05'']"
    by (simp only: list.set)
  finally show "set (uniqueDates tz entries) =
      set [''2024-01-01'', ''2024-01-02'', ''2024-01-03'', ''2024-01-05'']" .
qed

lemma calculateStreak_sample_days:
  assumes "(\<lambda>e. getLocalDateString tz (date e)) ` set entries =
             {''2024-01-01'', ''2024-01-02'', ''2024-01-03'', ''2024-01-05''}"
  shows "calculateStreak tz entries =
           \<lparr>streak_length = 3, streak_startDate = Some ''2024-01-01'',
            streak_endDate = Some ''2024-01-03''\<rparr>"
proof -
  have ne: "entries \<noteq> []" using assms by (cases entries) simp_all
  have "calculateStreak tz entries =
      (let v = streak_loop \<lparr>maxStreak = 1, currentStreak = 1, maxStart = ''2024-01-01'',
                 maxEnd = ''2024-01-01'', currentStart = ''2024-01-01''\<rparr>
               ''2024-01-01'' [''2024-01-02'', ''2024-01-03'', ''2024-01-05'']
       in \<lparr>streak_length = maxStreak v, streak_startDate = Some (maxStart v),
           streak_endDate = Some (maxEnd v)\<rparr>)"
    unfolding calculateStreak_def sample_days_unique[OF assms] using ne
    by (simp only: if_False list.case)
  then show ?thesis
    unfolding streak_loop_sample by simp
qed

text \<open>
  Claim C3. \<open>calculateStreak\<close> returns the zero result on an empty list. On a non-empty
  list the dates it scans (\<open>uniqueDates\<close>) are the local-day strings of the entries, without
  duplicates and in ascending order, and the result is a run \<open>g\<close> of that list (a contiguous
  stretch whose neighbours lie exactly one day apart) such that no run is longer: its length, its
  first and its last date. Entries whose local days are exactly 2024-01-01, 2024-01-02,
  2024-01-03 and 2024-01-05 give length 3 from 2024-01-01 to 2024-01-03.
\<close>

theorem calculateStreak_longest_run:
  "calculateStreak tz [] = \<lparr>streak_length = 0, streak_startDate = None, streak_endDate = None\<rparr>
   \<and> (entries \<noteq> [] \<longrightarrow>
        sorted (uniqueDates tz entries) \<and> distinct (uniqueDates tz entries)
        \<and> set (uniqueDates tz entries) = (\<lambda>e. getLocalDateString tz (date e)) ` set entries
        \<and> (\<exists>g. is_run (uniqueDates tz entries) g
               \<and> (\<forall>h. is_run (uniqueDates tz entries) h \<longrightarrow> length h \<le> length g)
               \<and> calculateStreak tz entries =
                   \<lparr>streak_length = length g, streak_startDate = Some (hd g),
                    streak_endDate = Some (last g)\<rparr>))
   \<and> ((\<lambda>e. getLocalDateString tz (date e)) ` set entries =
          {''2024-01-01'', ''2024-01-02'', ''2024-01-03'', ''2024-01-05''} \<longrightarrow>
        calculateStreak tz entries =
          \<lparr>streak_length = 3, streak_startDate = Some ''2024-01-01'',
           streak_endDate = Some ''2024-01-03''\<rparr>)"
proof (intro conjI impI)
  show "calculateStreak tz [] = \<lparr>streak_length = 0, streak_startDate = None, streak_endDate = None\<rparr>"
    by (simp add: calculateStreak_def)
next
  assume "entries \<noteq> []"
  then show "\<exists>g. is_run (uniqueDates tz entries) g
               \<and> (\<forall>h. is_run (uniqueDates tz entries) h \<longrightarrow> length h \<le> length g)
               \<and> calculateStreak tz entries =
                   \<lparr>streak_length = length g, streak_startDate = Some (hd g),
                    streak_endDate = Some (last g)\<rparr>"
    by (rule calculateStreak_run)
next
  assume "(\<lambda>e. getLocalDateString tz (date e)) ` set entries =
          {''2024-01-01'', ''2024-01-02'', ''2024-01-03'', ''2024-01-05''}"
  then show "calculateStreak tz entries =
          \<lparr>streak_length = 3, streak_startDate = Some ''2024-01-01'',
           streak_endDate = Some ''2024-01-03''\<rparr>"
    by (rule calculateStreak_sample_days)
next
  show "sorted (uniqueDates tz entries)" by (rule uniqueDates_props(1))
next
  show "distinct (uniqueDates tz entries)" by (rule uniqueDates_props(2))
next
  show "set (uniqueDates tz entries) = (\<lambda>e. getLocalDateString tz (date e)) ` set entries"
    by (rule uniqueDates_props(3))
qed

theorem calculateStreak_longest_run_witness:
  "calculateStreak 21600000
     [movie_at 1704412800000, movie_at 1704045600000, movie_at 1704240000000,
      movie_at 1704100000000, movie_at 1704150000000]
   = \<lparr>streak_length = 3, streak_startDate = Some ''2024-01-01'',
      streak_endDate = Some ''2024-01-03''\<rparr>"
proof -
  have "(\<lambda>e. getLocalDateString 21600000 (date e)) `
          set [movie_at 1704412800000, movie_at 1704045600000, movie_at 1704240000000,
               movie_at 1704100000000, movie_at 1704150000000]
        = {''2024-01-01'', ''2024-01-02'', ''2024-01-03'', ''2024-01-05''}"
    by (auto simp add: movie_at_def sample_local_days)
  then show ?thesis
    by (rule mp[OF conjunct2[OF conjunct2[OF calculateStreak_longest_run]]])
qed

section \<open>The first day of the grid\<close>

lemma Day_mult: "Day (d * msPerDay) = d"
  by (simp add: Day_def msPerDay_def)

lemma MakeDay_Jan1: "MakeDay y 0 1 = DayFromYear y"
  by (simp add: MakeDay_def MonthStart_def)

lemma Date_UTC_Jan1: "Date_UTC yr 0 1 0 0 0 = DayFromYear (MakeFullYear yr) * msPerDay"
  by (simp add: Date_UTC_def MakeDate_def MakeTime_def MakeDay_Jan1)

lemma MakeDay_Dec31: "MakeDay y 11 31 = DayFromYear y + DaysInYear y - 1"
  using DaysInYear_leap[of y] by (simp add: MakeDay_def MonthStart_def)

lemma Date_UTC_Dec31:
  "Date_UTC yr 11 31 0 0 0 = (DayFromYear (MakeFullYear yr) + DaysInYear (MakeFullYear yr) - 1) * msPerDay"
  by (simp add: Date_UTC_def MakeDate_def MakeTime_def MakeDay_Dec31)

lemma Jan1_components:
  "YearFromTime (Date_UTC yr 0 1 0 0 0) = MakeFullYear yr
   \<and> MonthFromTime (Date_UTC yr 0 1 0 0 0) = 0 \<and> DateFromTime (Date_UTC yr 0 1 0 0 0) = 1"
proof -
  let ?y = "MakeFullYear yr"
  have d: "Day (Date_UTC yr 0 1 0 0 0) = DayFromYear ?y" by (simp add: Date_UTC_Jan1 Day_mult)
  have y: "YearFromTime (Date_UTC yr 0 1 0 0 0) = ?y"
    using DayFromYear_less[of ?y "?y + 1"] by (intro YearFromTime_eq) (simp_all add: d)
  have w: "DayWithinYear (Date_UTC yr 0 1 0 0 0) = 0" by (simp add: DayWithinYear_def y d)
  show ?thesis by (simp add: y MonthFromTime_def DateFromTime_def w Let_def)
qed

lemma WeekDay_range: "0 \<le> WeekDay t \<and> WeekDay t < 7"
  by (simp add: WeekDay_def)

lemma dayShift_range: "0 \<le> dayShift weekStart (getUTCDay t) \<and> dayShift weekStart (getUTCDay t) < 7"
  using WeekDay_range[of t] by (simp add: dayShift_def getUTCDay_def)

lemma startDate_eq:
  "startDate yr weekStart =
     Date_UTC yr 0 1 0 0 0 - dayShift weekStart (getUTCDay (Date_UTC yr 0 1 0 0 0)) * msPerDay"
proof -
  let ?t = "Date_UTC yr 0 1 0 0 0"
  let ?s = "dayShift weekStart (getUTCDay ?t)"
  show ?thesis
  proof (cases "?s > 0")
    case True
    have "setUTCDate ?t (getUTCDate ?t + (- ?s)) = ?t + (- ?s) * msPerDay"
      by (rule setUTCDate_shift)
    then show ?thesis using True by (simp add: startDate_def Let_def)
  next
    case False
    then have "?s = 0" using dayShift_range[of weekStart ?t] by simp
    then show ?thesis by (simp add: startDate_def Let_def)
  qed
qed

lemma Date_UTC_midnight: "TimeWithinDay (Date_UTC yr 0 1 0 0 0) = 0"
  by (simp add: Date_UTC_Jan1 TimeWithinDay_def)

text \<open>
  Claim C2, as amended. The layout's start date is the instant \<open>Date.UTC(year, 0, 1)\<close>
  moved back by \<open>(startDow + 6) mod 7\<close> days for a Monday week start and by \<open>startDow\<close> days
  for a Sunday one, \<open>startDow\<close> being that instant's day of the week. For a year outside
  0..99 that instant is midnight UTC of January 1 of the year; for a year from 0 to 99 it is
  midnight UTC of January 1 of 1900 + year. For 2024 the start date is 2024-01-01 with a
  Monday week start and 2023-12-31 with a Sunday one.
\<close>

theorem startDate_week_boundary:
  "startDate yr ''monday'' =
     Date_UTC yr 0 1 0 0 0 - ((getUTCDay (Date_UTC yr 0 1 0 0 0) + 6) mod 7) * msPerDay
   \<and> startDate yr ''sunday'' =
     Date_UTC yr 0 1 0 0 0 - getUTCDay (Date_UTC yr 0 1 0 0 0) * msPerDay
   \<and> YearFromTime (Date_UTC yr 0 1 0 0 0) = (if 0 \<le> yr \<and> yr \<le> 99 then 1900 + yr else yr)
   \<and> MonthFromTime (Date_UTC yr 0 1 0 0 0) = 0 \<and> DateFromTime (Date_UTC yr 0 1 0 0 0) = 1
   \<and> TimeWithinDay (Date_UTC yr 0 1 0 0 0) = 0
   \<and> startDate 2024 ''monday'' = Date_UTC 2024 0 1 0 0 0
   \<and> toISODate (startDate 2024 ''monday'') = ''2024-01-01''
   \<and> startDate 2024 ''sunday'' = Date_UTC 2023 11 31 0 0 0
   \<and> toISODate (startDate 2024 ''sunday'') = ''2023-12-31''"
proof -
  have a: "startDate yr ''monday'' =
     Date_UTC yr 0 1 0 0 0 - ((getUTCDay (Date_UTC yr 0 1 0 0 0) + 6) mod 7) * msPerDay"
    by (simp add: startDate_eq[of yr "''monday''"] dayShift_def)
  have b: "startDate yr ''sunday'' =
     Date_UTC yr 0 1 0 0 0 - getUTCDay (Date_UTC yr 0 1 0 0 0) * msPerDay"
    by (simp add: startDate_eq[of yr "''sunday''"] dayShift_def)
  have c: "startDate 2024 ''monday'' = Date_UTC 2024 0 1 0 0 0" by code_simp
  have d: "toISODate (startDate 2024 ''monday'') = ''2024-01-01''" by code_simp
  have e: "startDate 2024 ''sunday'' = Date_UTC 2023 11 31 0 0 0" by code_simp
  have f: "toISODate (startDate 2024 ''sunday'') = ''2023-12-31''" by code_simp
  have g: "YearFromTime (Date_UTC yr 0 1 0 0 0) = (if 0 \<le> yr \<and> yr \<le> 99 then 1900 + yr else yr)"
    using Jan1_components[of yr] by (simp add: MakeFullYear_def)
  have h: "MonthFromTime (Date_UTC yr 0 1 0 0 0) = 0" "DateFromTime (Date_UTC yr 0 1 0 0 0) = 1"
    using Jan1_components[of yr] by simp_all
  have i: "TimeWithinDay (Date_UTC yr 0 1 0 0 0) = 0" by (rule Date_UTC_midnight)
  show ?thesis
    apply (intro conjI)
    apply (rule a)
    apply (rule b)
    apply (rule g)
    apply (rule h(1))
    apply (rule h(2))
    apply (rule i)
    apply (rule c)
    apply (rule d)
    apply (rule e)
    apply (rule f)
    done
qed

text \<open>
  The claim as stated fails for a year from 0 to 99. For the year 50 and a Sunday week
  start, January 1 of the year 50 is a Saturday, so the claim puts the start date six days
  before it, on 0049-12-26; \<open>generateSvg\<close> starts the grid on 1950-01-01, because
  \<open>Date.UTC(50, 0, 1)\<close> is January 1 of 1950.
\<close>

theorem startDate_two_digit_year:
  "toISODate (startDate 50 ''sunday'') = ''1950-01-01''
   \<and> toISODate (MakeDate (MakeDay 50 0 1) 0) = ''0050-01-01''
   \<and> WeekDay (MakeDate (MakeDay 50 0 1) 0) = 6
   \<and> toISODate (MakeDate (MakeDay 50 0 1) 0 - WeekDay (MakeDate (MakeDay 50 0 1) 0) * msPerDay)
       = ''0049-12-26''
   \<and> startDate 50 ''sunday''
       \<noteq> MakeDate (MakeDay 50 0 1) 0 - WeekDay (MakeDate (MakeDay 50 0 1) 0) * msPerDay"
proof -
  have a: "toISODate (startDate 50 ''sunday'') = ''1950-01-01''" by code_simp
  have b: "toISODate (MakeDate (MakeDay 50 0 1) 0) = ''0050-01-01''" by code_simp
  have c: "WeekDay (MakeDate (MakeDay 50 0 1) 0) = 6" by code_simp
  have d: "toISODate (MakeDate (MakeDay 50 0 1) 0 - WeekDay (MakeDate (MakeDay 50 0 1) 0) * msPerDay)
             = ''0049-12-26''" by code_simp
  have e: "startDate 50 ''sunday''
             \<noteq> MakeDate (MakeDay 50 0 1) 0 - WeekDay (MakeDate (MakeDay 50 0 1) 0) * msPerDay"
    by code_simp
  show ?thesis
    apply (intro conjI)
    apply (rule a)
    apply (rule b)
    apply (rule c)
    apply (rule d)
    apply (rule e)
    done
qed

section \<open>The writes of the grid loop\<close>

lemma dayIndexOf_range: "0 \<le> dayIndexOf weekStart t \<and> dayIndexOf weekStart t < 7"
  using WeekDay_range[of t] by (simp add: dayIndexOf_def getUTCDay_def)

lemma grid_shape_new: "grid_shape tw (grid_new tw)"
  by (simp add: grid_shape_def grid_new_def)

lemma grid_incr_ok:
  assumes sh: "grid_shape tw g" and d: "0 \<le> dayIndex" "dayIndex < 7"
    and w: "0 \<le> weekIndex" "weekIndex < tw"
  shows "\<exists>g'. grid_incr g dayIndex weekIndex = Inr g' \<and> grid_shape tw g'
               \<and> grid_sum g' = grid_sum g + 1"
proof -
  have lg: "length g = 7" and rows: "\<And>row. row \<in> set g \<Longrightarrow> length row = nat tw"
    using sh by (simp_all add: grid_shape_def)
  have dn: "nat dayIndex < length g" using d lg by simp
  let ?row = "g ! nat dayIndex"
  have lr: "length ?row = nat tw" using rows dn by simp
  have wn: "nat weekIndex < length ?row" using w lr by simp
  let ?row' = "?row[nat weekIndex := ?row ! nat weekIndex + 1]"
  let ?g' = "g[nat dayIndex := ?row']"
  have r: "grid_incr g dayIndex weekIndex = Inr ?g'"
    using d w lg lr by (simp add: grid_incr_def Let_def)
  have s: "grid_shape tw ?g'"
    unfolding grid_shape_def using lg lr rows by (auto dest!: set_update_subset_insert[THEN subsetD])
  have sr: "sum_list ?row' = sum_list ?row + 1"
    using wn by (simp add: sum_list_update)
  have "sum_list (map sum_list ?g') = sum_list ((map sum_list g)[nat dayIndex := sum_list ?row'])"
    by (simp add: map_update)
  also have "\<dots> = sum_list (map sum_list g) + sum_list ?row' - sum_list ?row"
    using dn by (simp add: sum_list_update)
  finally have "grid_sum ?g' = grid_sum g + 1" using sr by (simp add: grid_sum_def)
  then show ?thesis using r s by blast
qed

lemma grid_step_ok:
  assumes "grid_shape tw (grid st)"
  shows "\<exists>st'. grid_step start tw weekStart st e = Inr st' \<and> grid_shape tw (grid st')
               \<and> grid_sum (grid st') = grid_sum (grid st) + (if in_range start tw e then 1 else 0)"
proof (cases "in_range start tw e")
  case True
  then have w: "0 \<le> (date e - start) div msPerDay div 7" "(date e - start) div msPerDay div 7 < tw"
    by (simp_all add: in_range_def)
  from grid_incr_ok[OF assms _ _ w, of "dayIndexOf weekStart (date e)"] dayIndexOf_range[of weekStart "date e"]
  obtain g' where "grid_incr (grid st) (dayIndexOf weekStart (date e)) ((date e - start) div msPerDay div 7) = Inr g'"
    "grid_shape tw g'" "grid_sum g' = grid_sum (grid st) + 1" by blast
  then show ?thesis using True w by (simp add: grid_step_def Let_def)
next
  case False
  then show ?thesis using assms by (auto simp add: grid_step_def Let_def in_range_def)
qed

lemma grid_loop_ok:
  "grid_shape tw (grid st) \<Longrightarrow>
   \<exists>st'. grid_loop start tw weekStart st es = Inr st' \<and> grid_shape tw (grid st')
         \<and> grid_sum (grid st') = grid_sum (grid st) + length (filter (in_range start tw) es)"
proof (induction es arbitrary: st)
  case Nil
  then show ?case by simp
next
  case (Cons e es)
  from grid_step_ok[OF Cons.prems, of start weekStart e]
  obtain st1 where s1: "grid_step start tw weekStart st e = Inr st1" "grid_shape tw (grid st1)"
    "grid_sum (grid st1) = grid_sum (grid st) + (if in_range start tw e then 1 else 0)" by blast
  from Cons.IH[OF s1(2)]
  obtain st2 where s2: "grid_loop start tw weekStart st1 es = Inr st2" "grid_shape tw (grid st2)"
    "grid_sum (grid st2) = grid_sum (grid st1) + length (filter (in_range start tw) es)" by blast
  show ?case using s1 s2 by simp
qed

lemma grid_sum_new: "grid_sum (grid_new tw) = 0"
  by (simp add: grid_sum_def grid_new_def)

lemma generateSvg_grid_ok:
  "\<exists>st. generateSvg_grid tz entries displayYear weekStart = Inr st
       \<and> grid_shape (totalWeeks displayYear weekStart) (grid st)
       \<and> grid_sum (grid st) =
           length (filter (in_range (startDate displayYear weekStart) (totalWeeks displayYear weekStart))
                     (sortedEntries tz displayYear entries))"
  using grid_loop_ok[of "totalWeeks displayYear weekStart"
      "\<lparr>grid = grid_new (totalWeeks displayYear weekStart), maxCount = 0\<rparr>"
      "startDate displayYear weekStart" weekStart "sortedEntries tz displayYear entries"]
  by (simp add: generateSvg_grid_def grid_shape_new grid_sum_new)

text \<open>
  Claim C10. The row index computed in the grid loops of \<open>generateSvg\<close> and
  \<open>generateMultiYearSvg\<close> lies in 0..6 for either week start, so the loops never write
  outside the matrix: they finish without a fault (\<open>RowUndefined\<close>: the row does not exist,
  \<open>ColumnOutside\<close>: the column lies beyond the row), and the grid keeps its 7 rows of
  \<open>totalWeeks\<close> cells.
\<close>

theorem grid_writes_in_bounds:
  "0 \<le> dayIndexOf weekStart t \<and> dayIndexOf weekStart t < 7
   \<and> (\<exists>st. generateSvg_grid tz entries displayYear weekStart = Inr st
          \<and> length (grid st) = 7
          \<and> (\<forall>row \<in> set (grid st). length row = nat (totalWeeks displayYear weekStart)))
   \<and> (\<forall>r \<in> set (generateMultiYearSvg_grids tz entries years weekStart).
          \<exists>st. r = Inr st \<and> length (grid st) = 7)"
proof (intro conjI)
  show "0 \<le> dayIndexOf weekStart t" "dayIndexOf weekStart t < 7"
    using dayIndexOf_range[of weekStart t] by simp_all
next
  show "\<exists>st. generateSvg_grid tz entries displayYear weekStart = Inr st
          \<and> length (grid st) = 7
          \<and> (\<forall>row \<in> set (grid st). length row = nat (totalWeeks displayYear weekStart))"
    using generateSvg_grid_ok[of tz entries displayYear weekStart] by (auto simp add: grid_shape_def)
next
  show "\<forall>r \<in> set (generateMultiYearSvg_grids tz entries years weekStart).
          \<exists>st. r = Inr st \<and> length (grid st) = 7"
  proof
    fix r assume "r \<in> set (generateMultiYearSvg_grids tz entries years weekStart)"
    then obtain yr where r: "r = grid_loop (startDate yr weekStart) (totalWeeks yr weekStart) weekStart
                 \<lparr>grid = grid_new (totalWeeks yr weekStart), maxCount = 0\<rparr>
                 (filter (\<lambda>e. getFullYear tz (date e) = yr) entries)"
      by (auto simp add: generateMultiYearSvg_grids_def)
    have "grid_shape (totalWeeks yr weekStart)
            (grid \<lparr>grid = grid_new (totalWeeks yr weekStart), maxCount = 0\<rparr>)"
      by (simp add: grid_shape_new)
    from grid_loop_ok[OF this, of "startDate yr weekStart" weekStart
        "filter (\<lambda>e. getFullYear tz (date e) = yr) entries"]
    obtain st where "r = Inr st" "grid_shape (totalWeeks yr weekStart) (grid st)"
      unfolding r by blast
    then show "\<exists>st. r = Inr st \<and> length (grid st) = 7"
      by (auto simp add: grid_shape_def)
  qed
qed

theorem grid_writes_in_bounds_witness:
  "0 \<le> dayIndexOf ''monday'' 1704067200000 \<and> dayIndexOf ''monday'' 1704067200000 < 7
   \<and> (\<exists>st. generateSvg_grid 0 [movie_at 1704067200000] 2024 ''monday'' = Inr st
          \<and> length (grid st) = 7
          \<and> (\<forall>row \<in> set (grid st). length row = nat (totalWeeks 2024 ''monday'')))
   \<and> (\<exists>st. hd (generateMultiYearSvg_grids 0 [movie_at 1704067200000] [2024] ''monday'') = Inr st
          \<and> length (grid st) = 7)"
proof -
  have "hd (generateMultiYearSvg_grids 0 [movie_at 1704067200000] [2024] ''monday'')
          \<in> set (generateMultiYearSvg_grids 0 [movie_at 1704067200000] [2024] ''monday'')"
    by (simp add: generateMultiYearSvg_grids_def sortedYears_def)
  then show ?thesis
    using grid_writes_in_bounds[of "''monday''" 1704067200000 0 "[movie_at 1704067200000]" 2024 "[2024]"]
    by blast
qed

section \<open>The sum of the grid\<close>

lemma ceil_div_mult: "0 < m \<Longrightarrow> ceil_div (k * m) m = k"
  by (simp add: ceil_div_def flip: mult_minus_left)

lemma ceil_div_7: "ceil_div n 7 = (n + 6) div 7"
proof -
  have "- ((- n) div 7) = (n + 6) div 7" by presburger
  then show ?thesis by (simp add: ceil_div_def)
qed

lemma div_sub_mult: "0 < m \<Longrightarrow> (t - k * m) div m = t div m - k" for t k m :: int
  by (metis add.commute diff_conv_add_uminus div_mult_self1 less_irrefl mult_minus_left)

lemma totalDays_eq:
  "totalDays yr weekStart =
     DaysInYear (MakeFullYear yr) + dayShift weekStart (getUTCDay (Date_UTC yr 0 1 0 0 0))"
proof -
  let ?y = "MakeFullYear yr"
  let ?s = "dayShift weekStart (getUTCDay (Date_UTC yr 0 1 0 0 0))"
  have "Date_UTC yr 11 31 0 0 0 - startDate yr weekStart = (DaysInYear ?y - 1 + ?s) * msPerDay"
    unfolding startDate_eq Date_UTC_Dec31 Date_UTC_Jan1 by (simp add: algebra_simps)
  then show ?thesis
    unfolding totalDays_def using ceil_div_mult[of msPerDay "DaysInYear ?y - 1 + ?s"]
    by (simp add: msPerDay_def)
qed

lemma in_range_same_year:
  assumes "YearFromTime t = MakeFullYear yr"
  shows "0 \<le> (t - startDate yr weekStart) div msPerDay div 7
         \<and> (t - startDate yr weekStart) div msPerDay div 7 < totalWeeks yr weekStart"
proof -
  let ?y = "MakeFullYear yr"
  let ?s = "dayShift weekStart (getUTCDay (Date_UTC yr 0 1 0 0 0))"
  have st: "startDate yr weekStart = (DayFromYear ?y - ?s) * msPerDay"
    unfolding startDate_eq Date_UTC_Jan1 by (simp add: algebra_simps)
  have "(t - startDate yr weekStart) div msPerDay = t div msPerDay - (DayFromYear ?y - ?s)"
    unfolding st by (rule div_sub_mult) (simp add: msPerDay_def)
  then have dss: "(t - startDate yr weekStart) div msPerDay = Day t - DayFromYear ?y + ?s"
    by (simp add: Day_def)
  have b: "DayFromYear ?y \<le> Day t" "Day t < DayFromYear ?y + DaysInYear ?y"
    using YearFromTime_spec[of t] assms DayFromYear_Suc[of ?y] by simp_all
  have s: "0 \<le> ?s" using dayShift_range[of weekStart "Date_UTC yr 0 1 0 0 0"] by simp
  have lo: "0 \<le> (t - startDate yr weekStart) div msPerDay" using b s dss by simp
  have hi: "(t - startDate yr weekStart) div msPerDay \<le> totalDays yr weekStart - 1"
    using b dss by (simp add: totalDays_eq)
  have "(t - startDate yr weekStart) div msPerDay div 7 \<le> (totalDays yr weekStart - 1) div 7"
    using hi by (rule zdiv_mono1) simp
  moreover have "(totalDays yr weekStart - 1) div 7 < (totalDays yr weekStart + 6) div 7"
    by presburger
  ultimately show ?thesis using lo by (simp add: totalWeeks_def ceil_div_7 pos_imp_zdiv_nonneg_iff)
qed

text \<open>
  Where local time is UTC the grid loop of \<open>generateSvg\<close> counts every entry of the year
  (a year that \<open>Date.UTC\<close> does not remap): the sum of the cells is the number of entries
  that pass the year filter.
\<close>

lemma generateSvg_grid_sum_utc:
  assumes "yr < 0 \<or> 99 < yr"
  shows "\<exists>st. generateSvg_grid 0 entries yr weekStart = Inr st
           \<and> grid_sum (grid st) = length (filter (\<lambda>e. getFullYear 0 (date e) = yr) entries)"
proof -
  have my: "MakeFullYear yr = yr" using assms by (auto simp add: MakeFullYear_def)
  have "in_range (startDate yr weekStart) (totalWeeks yr weekStart) e"
    if "e \<in> set (sortedEntries 0 yr entries)" for e
  proof -
    from that have "YearFromTime (date e) = MakeFullYear yr"
      by (simp add: sortedEntries_def getFullYear_def LocalTime_def my)
    then show ?thesis unfolding in_range_def by (rule in_range_same_year)
  qed
  then have "filter (in_range (startDate yr weekStart) (totalWeeks yr weekStart))
               (sortedEntries 0 yr entries) = sortedEntries 0 yr entries"
    by (simp add: filter_id_conv)
  then have "length (filter (in_range (startDate yr weekStart) (totalWeeks yr weekStart))
               (sortedEntries 0 yr entries))
             = length (filter (\<lambda>e. getFullYear 0 (date e) = yr) entries)"
    by (simp add: sortedEntries_def)
  then show ?thesis
    using generateSvg_grid_ok[of 0 entries yr weekStart] by auto
qed

lemma dropped_entry_facts:
  "sortedEntries 21600000 2023 [movie_at 1672516800000] = [movie_at 1672516800000]"
  "in_range (startDate 2023 ''sunday'') (totalWeeks 2023 ''sunday'') (movie_at 1672516800000) = False"
  "getLocalDateString 21600000 1672516800000 = ''2023-01-01''"
  "getFullYear 21600000 1672516800000 = 2023"
  by code_simp+

text \<open>
  Claim C1 fails on the code where local time is not UTC. With local time six hours ahead of
  UTC, the year 2023 and a Sunday week start, an entry watched at 02:00 local time on
  2023-01-01 (20:00 UTC on 2022-12-31) passes the year filter of \<open>generateSvg\<close>, which reads
  the local year, but lies before the start date of the grid, which is a UTC instant, so its
  week index is negative and no cell counts it: the cells sum to 0 while one entry falls in
  the target year.
\<close>

theorem generateSvg_grid_misses_local_entry:
  "\<exists>st. generateSvg_grid 21600000 [movie_at 1672516800000] 2023 ''sunday'' = Inr st
       \<and> grid_sum (grid st) = 0
       \<and> length (filter (\<lambda>e. getFullYear 21600000 (date e) = 2023) [movie_at 1672516800000]) = 1
       \<and> getLocalDateString 21600000 (date (movie_at 1672516800000)) = ''2023-01-01''"
proof -
  have "length (filter (\<lambda>e. getFullYear 21600000 (date e) = 2023) [movie_at 1672516800000]) = 1"
    by (simp add: movie_at_def dropped_entry_facts(4))
  moreover have "getLocalDateString 21600000 (date (movie_at 1672516800000)) = ''2023-01-01''"
    by (simp add: movie_at_def dropped_entry_facts(3))
  moreover have "length (filter (in_range (startDate 2023 ''sunday'') (totalWeeks 2023 ''sunday''))
                   (sortedEntries 21600000 2023 [movie_at 1672516800000])) = 0"
    by (simp add: dropped_entry_facts(1,2))
  ultimately show ?thesis
    using generateSvg_grid_ok[of 21600000 "[movie_at 1672516800000]" 2023 "''sunday''"]
    by auto
qed

section \<open>Colour levels\<close>

lemma ceil_div_real:
  "ceil_div (int count * 4) (int maxCnt) = \<lceil>real count / real maxCnt * 4\<rceil>"
proof -
  have "\<lceil>real count / real maxCnt * 4\<rceil> = \<lceil>real_of_int (int count * 4) / real_of_int (int maxCnt)\<rceil>"
    by simp
  also have "\<dots> = - (- (int count * 4) div int maxCnt)"
    by (rule ceiling_divide_eq_div)
  finally show ?thesis by (simp add: ceil_div_def)
qed

text \<open>
  Claim C4. Both colour mappings return a level from 0 to 4 and level 0 for a count of 0. The
  percentile mapping (\<open>calculateColorIntensity\<close>) returns 1, 2, 3 or 4 as the count is at most
  p25, p50, p75 or greater. The linear mapping (the index \<open>getColor\<close> reads the palette at)
  is 0 when the count or the maximum is 0, and otherwise the ceiling of
  \<open>count / maxCount * 4\<close>, capped at 4.
\<close>

theorem color_levels:
  "calculateColorIntensity dayCount stats \<le> 4
   \<and> calculateColorIntensity 0 stats = 0
   \<and> (dayCount \<noteq> 0 \<longrightarrow>
        calculateColorIntensity dayCount stats =
          (if dayCount \<le> p25 stats then 1 else if dayCount \<le> p50 stats then 2
           else if dayCount \<le> p75 stats then 3 else 4))
   \<and> getColor_level maxCnt count \<le> 4
   \<and> getColor_level maxCnt 0 = 0
   \<and> getColor_level 0 count = 0
   \<and> (count \<noteq> 0 \<and> maxCnt \<noteq> 0 \<longrightarrow>
        getColor_level maxCnt count = min (nat \<lceil>real count / real maxCnt * 4\<rceil>) 4)
   \<and> getColor t maxCnt count = colors t ! getColor_level maxCnt count"
proof (intro conjI impI)
  show "calculateColorIntensity dayCount stats \<le> 4"
    by (simp add: calculateColorIntensity_def)
  show "calculateColorIntensity 0 stats = 0"
    by (simp add: calculateColorIntensity_def)
  show "getColor_level maxCnt count \<le> 4"
    by (simp add: getColor_level_def)
  show "getColor_level maxCnt 0 = 0" "getColor_level 0 count = 0"
    by (simp_all add: getColor_level_def)
  show "getColor t maxCnt count = colors t ! getColor_level maxCnt count"
    by (simp add: getColor_def)
next
  assume "dayCount \<noteq> 0"
  then show "calculateColorIntensity dayCount stats =
          (if dayCount \<le> p25 stats then 1 else if dayCount \<le> p50 stats then 2
           else if dayCount \<le> p75 stats then 3 else 4)"
    by (simp add: calculateColorIntensity_def)
next
  assume "count \<noteq> 0 \<and> maxCnt \<noteq> 0"
  then show "getColor_level maxCnt count = min (nat \<lceil>real count / real maxCnt * 4\<rceil>) 4"
    unfolding getColor_level_def ceil_div_real by simp
qed

theorem color_levels_witness:
  "calculateColorIntensity 3 \<lparr>p25 = 1, p50 = 2, p75 = 4, p90 = 6\<rparr> = 3
   \<and> getColor_level 3 2 = min (nat \<lceil>real 2 / real 3 * 4\<rceil>) 4
   \<and> getColor_level 3 2 = 3"
proof -
  have "getColor_level 3 2 = 3" by (simp add: getColor_level_def ceil_div_def)
  then show ?thesis
    using color_levels[of 3 "\<lparr>p25 = 1, p50 = 2, p75 = 4, p90 = 6\<rparr>" 3 2]
    by simp
qed

section \<open>Escaping\<close>

lemma escape_entity_cases:
  "(c \<in> reserved \<and> escape_entity c \<in> entities) \<or> (c \<notin> reserved \<and> escape_entity c = [c])"
  by (simp add: reserved_def entities_def escape_entity_def)

lemma escape_entity_standalone_cases:
  "(c \<in> reserved \<and> escape_entity_standalone c \<in> entities_standalone)
   \<or> (c \<notin> reserved \<and> escape_entity_standalone c = [c])"
  by (simp add: reserved_def entities_standalone_def escape_entity_standalone_def)

lemma entity_like_literals:
  "entity_like ''&lt;''" "entity_like ''&gt;''" "entity_like ''&amp;''"
  "entity_like ''&apos;''" "entity_like ''&#39;''" "entity_like ''&quot;''"
  by (simp_all add: entity_like_def)

lemma entity_chars:
  assumes "e \<in> entities \<union> entities_standalone"
  shows "\<exists>r. e = CHR ''&'' # r \<and> CHR ''&'' \<notin> set r
             \<and> (\<forall>c \<in> set e. c \<notin> {CHR ''<'', CHR ''>'', CHR 0x27, CHR 0x22})"
proof -
  have "entity_like e"
    using assms unfolding entities_def entities_standalone_def
    by (elim UnE insertE emptyE) (simp_all only: entity_like_literals)
  then show ?thesis by (simp only: entity_like_def)
qed

lemma entity_amp_first:
  assumes "e \<in> entities \<union> entities_standalone" "j < length e" "e ! j = CHR ''&''"
  shows "j = 0"
proof (rule ccontr)
  assume "j \<noteq> 0"
  then obtain k where k: "j = Suc k" by (cases j) auto
  from entity_chars[OF assms(1)] obtain r where r: "e = CHR ''&'' # r" "CHR ''&'' \<notin> set r"
    by blast
  have "r ! k \<in> set r" using assms(2) k r(1) by simp
  then show False using assms(3) k r by simp
qed

text \<open>
  The two properties of an escaped text, for any character map \<open>f\<close> that sends a reserved
  character to an entity of \<open>E\<close> and leaves every other character alone.
\<close>

lemma escaped_text:
  assumes f: "\<And>c. (c \<in> reserved \<and> f c \<in> E) \<or> (c \<notin> reserved \<and> f c = [c])"
    and E: "E \<subseteq> entities \<union> entities_standalone"
  shows "(\<forall>c \<in> set (concat (map f s)). c \<notin> {CHR ''<'', CHR ''>'', CHR 0x27, CHR 0x22})
         \<and> (\<forall>i < length (concat (map f s)). concat (map f s) ! i = CHR ''&'' \<longrightarrow>
               (\<exists>e \<in> E. prefix e (drop i (concat (map f s)))))"
proof (induction s)
  case Nil
  then show ?case by simp
next
  case (Cons c s)
  let ?rest = "concat (map f s)"
  have raw: "\<forall>x \<in> set (f c). x \<notin> {CHR ''<'', CHR ''>'', CHR 0x27, CHR 0x22}"
  proof (cases "c \<in> reserved")
    case True
    then have "f c \<in> entities \<union> entities_standalone" using f[of c] E by auto
    then show ?thesis using entity_chars[of "f c"] by auto
  next
    case False
    then have "f c = [c]" using f[of c] by simp
    then show ?thesis using False by (simp add: reserved_def)
  qed
  have amp: "\<exists>e \<in> E. prefix e (drop i (f c @ ?rest))"
    if i: "i < length (f c @ ?rest)" and a: "(f c @ ?rest) ! i = CHR ''&''" for i
  proof (cases "i < length (f c)")
    case True
    then have at: "f c ! i = CHR ''&''" using a by (simp add: nth_append)
    show ?thesis
    proof (cases "c \<in> reserved")
      case True
      then have e: "f c \<in> E" using f[of c] by simp
      then have "f c \<in> entities \<union> entities_standalone" using E by auto
      then have "i = 0" using entity_amp_first[of "f c" i] \<open>i < length (f c)\<close> at by blast
      then show ?thesis using e by (intro bexI[of _ "f c"]) simp_all
    next
      case False
      then have "f c = [c]" using f[of c] by simp
      then have "c = CHR ''&''" using at True by simp
      then show ?thesis using False by (simp add: reserved_def)
    qed
  next
    case False
    then have "i - length (f c) < length ?rest" "?rest ! (i - length (f c)) = CHR ''&''"
      using i a by (simp_all add: nth_append)
    then obtain e where e: "e \<in> E" "prefix e (drop (i - length (f c)) ?rest)"
      using Cons.IH by blast
    have "drop i (f c @ ?rest) = drop (i - length (f c)) ?rest" using False by simp
    then show ?thesis using e by (intro bexI[of _ e]) simp_all
  qed
  have eq: "concat (map f (c # s)) = f c @ ?rest" by simp
  have ih1: "\<forall>x \<in> set ?rest. x \<notin> {CHR ''<'', CHR ''>'', CHR 0x27, CHR 0x22}"
    using Cons.IH by (rule conjunct1)
  have "\<forall>x \<in> set (f c @ ?rest). x \<notin> {CHR ''<'', CHR ''>'', CHR 0x27, CHR 0x22}"
    unfolding set_append using raw ih1 by (meson UnE)
  moreover have "\<forall>i < length (f c @ ?rest). (f c @ ?rest) ! i = CHR ''&'' \<longrightarrow>
                  (\<exists>e \<in> E. prefix e (drop i (f c @ ?rest)))"
    using amp by blast
  ultimately show ?case unfolding eq by (rule conjI)
qed

text \<open>
  Claim C5. \<open>escapeXml\<close> (both renderers' versions) replaces each reserved character, where
  it stands, by its entity and leaves the other characters alone; its output holds no raw
  \<open><\<close>, \<open>>\<close>, \<open>'\<close> or \<open>"\<close>, and every \<open>&\<close> of the output starts one of the
  five entities.
\<close>

theorem escapeXml_output:
  "escapeXml (Some (xs @ c # ys)) = escapeXml (Some xs) @ escape_entity c @ escapeXml (Some ys)
   \<and> ((c \<in> reserved \<and> escape_entity c \<in> entities) \<or> (c \<notin> reserved \<and> escape_entity c = [c]))
   \<and> (\<forall>x \<in> set (escapeXml (Some s)). x \<notin> {CHR ''<'', CHR ''>'', CHR 0x27, CHR 0x22})
   \<and> (\<forall>i < length (escapeXml (Some s)). escapeXml (Some s) ! i = CHR ''&'' \<longrightarrow>
         (\<exists>e \<in> entities. prefix e (drop i (escapeXml (Some s)))))
   \<and> escapeXml_standalone (Some (xs @ c # ys)) =
       escapeXml_standalone (Some xs) @ escape_entity_standalone c @ escapeXml_standalone (Some ys)
   \<and> ((c \<in> reserved \<and> escape_entity_standalone c \<in> entities_standalone)
       \<or> (c \<notin> reserved \<and> escape_entity_standalone c = [c]))
   \<and> (\<forall>x \<in> set (escapeXml_standalone (Some s)). x \<notin> {CHR ''<'', CHR ''>'', CHR 0x27, CHR 0x22})
   \<and> (\<forall>i < length (escapeXml_standalone (Some s)). escapeXml_standalone (Some s) ! i = CHR ''&'' \<longrightarrow>
         (\<exists>e \<in> entities_standalone. prefix e (drop i (escapeXml_standalone (Some s)))))"
proof -
  have a: "(\<forall>x \<in> set (escapeXml (Some s)). x \<notin> {CHR ''<'', CHR ''>'', CHR 0x27, CHR 0x22})
      \<and> (\<forall>i < length (escapeXml (Some s)). escapeXml (Some s) ! i = CHR ''&'' \<longrightarrow>
         (\<exists>e \<in> entities. prefix e (drop i (escapeXml (Some s)))))"
    unfolding escapeXml_def option.case
    by (rule escaped_text[OF escape_entity_cases]) simp
  have b: "(\<forall>x \<in> set (escapeXml_standalone (Some s)). x \<notin> {CHR ''<'', CHR ''>'', CHR 0x27, CHR 0x22})
      \<and> (\<forall>i < length (escapeXml_standalone (Some s)). escapeXml_standalone (Some s) ! i = CHR ''&'' \<longrightarrow>
         (\<exists>e \<in> entities_standalone. prefix e (drop i (escapeXml_standalone (Some s)))))"
    unfolding escapeXml_standalone_def option.case
    by (rule escaped_text[OF escape_entity_standalone_cases]) simp
  have c: "escapeXml (Some (xs @ c # ys)) = escapeXml (Some xs) @ escape_entity c @ escapeXml (Some ys)"
    by (simp add: escapeXml_def)
  have d: "escapeXml_standalone (Some (xs @ c # ys)) =
       escapeXml_standalone (Some xs) @ escape_entity_standalone c @ escapeXml_standalone (Some ys)"
    by (simp add: escapeXml_standalone_def)
  show ?thesis
    apply (intro conjI)
           apply (rule c)
          apply (rule escape_entity_cases)
         apply (rule a[THEN conjunct1])
        apply (rule a[THEN conjunct2])
       apply (rule d)
      apply (rule escape_entity_standalone_cases)
     apply (rule b[THEN conjunct1])
    apply (rule b[THEN conjunct2])
    done
qed

lemma escapeXml_sample:
  "escapeXml (Some ''<script>&\"'') = ''&lt;script&gt;&amp;&quot;''"
  by (simp add: escapeXml_def escape_entity_def)

theorem escapeXml_output_witness:
  "escapeXml (Some ''<a&b>'') = ''&lt;a&amp;b&gt;''
   \<and> escapeXml (Some ''<a&b>'') ! 5 = CHR ''&''
   \<and> (\<exists>e \<in> entities. prefix e (drop 5 (escapeXml (Some ''<a&b>''))))"
proof -
  have v: "escapeXml (Some ''<a&b>'') = ''&lt;a&amp;b&gt;''"
    by (simp add: escapeXml_def escape_entity_def)
  have i: "5 < length (escapeXml (Some ''<a&b>''))" "escapeXml (Some ''<a&b>'') ! 5 = CHR ''&''"
    by (simp_all add: v)
  have "\<forall>i < length (escapeXml (Some ''<a&b>'')). escapeXml (Some ''<a&b>'') ! i = CHR ''&'' \<longrightarrow>
         (\<exists>e \<in> entities. prefix e (drop i (escapeXml (Some ''<a&b>''))))"
    by (rule escapeXml_output[where s = "''<a&b>''", THEN conjunct2, THEN conjunct2, THEN conjunct2,
          THEN conjunct1])
  then have "\<exists>e \<in> entities. prefix e (drop 5 (escapeXml (Some ''<a&b>'')))"
    using i by blast
  then show ?thesis using v i(2) by (intro conjI)
qed

section \<open>Processing the raw history\<close>

lemma history_step_wf:
  assumes "wf_item item"
  shows "\<exists>es. history_step newDate tz sel acc item =
               Inr (acc\<lparr>res_entries := res_entries acc @ es,
                        totalItemsWatched := totalItemsWatched acc + length es,
                        moviesCount := moviesCount acc + length (filter (\<lambda>e. etype e = ''movie'') es),
                        episodesCount := episodesCount acc + length (filter (\<lambda>e. etype e = ''episode'') es)\<rparr>)
             \<and> (\<forall>e \<in> set es. Some (getFullYear tz (date e)) = sel)
             \<and> map (\<lambda>e. (Some (date e), etype e)) es =
                 map (\<lambda>i. (newDate (watched_at i), item_type i)) (filter (kept newDate tz sel) [item])"
proof (cases "kept newDate tz sel item")
  case False
  then have "history_step newDate tz sel acc item = Inr acc"
    by (auto simp add: history_step_def kept_def split: option.splits)
  then show ?thesis using False by (intro exI[of _ "[]"]) simp
next
  case True
  then obtain d where d: "newDate (watched_at item) = Some d" "Some (getFullYear tz d) = sel"
    and ty: "item_type item = ''episode'' \<or> item_type item = ''movie''"
    by (auto simp add: kept_def split: option.splits)
  from ty show ?thesis
  proof
    assume t: "item_type item = ''episode''"
    then obtain ep sh where n: "item_episode item = Some ep" "item_show item = Some sh"
      using assms by (auto simp add: wf_item_def)
    show ?thesis
      by (intro exI[of _ "[\<lparr>date = d, title = show_title sh, episodeTitle = Some (ep_title ep),
                              episode = Some (episodeCode ep), year = show_year sh,
                              etype = ''episode'', rating = falsy_to_null (ep_rating ep)\<rparr>]"])
         (use True d t n in \<open>simp add: history_step_def\<close>)
  next
    assume t: "item_type item = ''movie''"
    then obtain mv where n: "item_movie item = Some mv"
      using assms by (auto simp add: wf_item_def)
    show ?thesis
      by (intro exI[of _ "[\<lparr>date = d, title = movie_title mv, episodeTitle = None,
                              episode = None, year = movie_year mv,
                              etype = ''movie'', rating = falsy_to_null (movie_rating mv)\<rparr>]"])
         (use True d t n in \<open>simp add: history_step_def\<close>)
  qed
qed

lemma history_loop_wf:
  assumes "\<forall>item \<in> set items. wf_item item"
  shows "\<exists>r es. history_loop newDate tz sel acc items = Inr r
             \<and> res_year r = res_year acc
             \<and> res_entries r = res_entries acc @ es
             \<and> totalItemsWatched r = totalItemsWatched acc + length es
             \<and> (\<forall>e \<in> set es. Some (getFullYear tz (date e)) = sel)
             \<and> map (\<lambda>e. (Some (date e), etype e)) es =
                 map (\<lambda>i. (newDate (watched_at i), item_type i)) (filter (kept newDate tz sel) items)"
  using assms
proof (induction items arbitrary: acc)
  case Nil
  then show ?case by simp
next
  case (Cons item items)
  then have w: "wf_item item" and ws: "\<forall>i \<in> set items. wf_item i" by simp_all
  from history_step_wf[OF w, of newDate tz sel acc]
  obtain es1 acc1 where s1: "history_step newDate tz sel acc item = Inr acc1"
    "res_year acc1 = res_year acc" "res_entries acc1 = res_entries acc @ es1"
    "totalItemsWatched acc1 = totalItemsWatched acc + length es1"
    "\<forall>e \<in> set es1. Some (getFullYear tz (date e)) = sel"
    "map (\<lambda>e. (Some (date e), etype e)) es1 =
       map (\<lambda>i. (newDate (watched_at i), item_type i)) (filter (kept newDate tz sel) [item])"
    by force
  from Cons.IH[OF ws, of acc1]
  obtain r es2 where s2: "history_loop newDate tz sel acc1 items = Inr r"
    "res_year r = res_year acc1" "res_entries r = res_entries acc1 @ es2"
    "totalItemsWatched r = totalItemsWatched acc1 + length es2"
    "\<forall>e \<in> set es2. Some (getFullYear tz (date e)) = sel"
    "map (\<lambda>e. (Some (date e), etype e)) es2 =
       map (\<lambda>i. (newDate (watched_at i), item_type i)) (filter (kept newDate tz sel) items)"
    by blast
  have m: "map (\<lambda>e. (Some (date e), etype e)) (es1 @ es2) =
       map (\<lambda>i. (newDate (watched_at i), item_type i)) (filter (kept newDate tz sel) (item # items))"
    using s1(6) s2(6) by (simp split: if_splits)
  show ?case
    apply (rule exI[of _ r], rule exI[of _ "es1 @ es2"])
    using s1 s2 m by (auto simp del: filter.simps)
qed

lemma map_of_bump:
  "map_of (map (\<lambda>(k', v). if k' = k then (k', c) else (k', v)) yc) k'' =
     (if k'' = k then map_option (\<lambda>v. c) (map_of yc k) else map_of yc k'')"
  by (induction yc) auto

lemma fst_bump: "map fst (map (\<lambda>(k', v). if k' = k then (k', c) else (k', v)) yc) = map fst yc"
  by (induction yc) auto

lemma yearCount_set_map_of:
  "map_of (yearCount_set yc k) k' =
     (if k' = k then Some (case map_of yc k of None \<Rightarrow> 1 | Some c \<Rightarrow> c + 1) else map_of yc k')"
  by (cases "map_of yc k") (auto simp add: yearCount_set_def map_of_bump map_add_def split: option.splits)

lemma yearCount_set_keys: "set (map fst (yearCount_set yc k)) = insert k (set (map fst yc))"
proof (cases "map_of yc k")
  case None
  then show ?thesis by (auto simp add: yearCount_set_def)
next
  case (Some c)
  then have "k \<in> set (map fst yc)" by (metis map_of_eq_None_iff option.distinct(1) set_map)
  then have "insert k (set (map fst yc)) = set (map fst yc)" by (rule insert_absorb)
  moreover have "map fst (yearCount_set yc k) = map fst yc"
    unfolding yearCount_set_def by (simp only: Some option.case fst_bump)
  ultimately show ?thesis by simp
qed

lemma yearCounts_spec:
  "map_of (yearCounts newDate tz history) y =
     (if items_in newDate tz history y = 0 then None else Some (items_in newDate tz history y))
   \<and> set (map fst (yearCounts newDate tz history)) = entryYear newDate tz ` set history"
proof (induction history rule: rev_induct)
  case Nil
  then show ?case by (simp add: yearCounts_def items_in_def)
next
  case (snoc item history)
  have s: "yearCounts newDate tz (history @ [item]) =
             yearCount_set (yearCounts newDate tz history) (entryYear newDate tz item)"
    by (simp add: yearCounts_def)
  show ?case
    using snoc
    by (auto simp add: s yearCount_set_map_of yearCount_set_keys items_in_def simp del: set_map
             split: option.splits if_splits)
qed


lemma reduce_most:
  assumes m: "\<And>k. m k = (if cnt k = 0 then None else Some (cnt k))"
    and keys: "\<forall>k \<in> set keys. cnt k \<noteq> (0::nat)"
  shows "foldl (\<lambda>a b. if count_gt (m a) (m b) then a else b) init keys \<in> insert init (set keys)
         \<and> (\<forall>k \<in> set keys.
               cnt k \<le> cnt (foldl (\<lambda>a b. if count_gt (m a) (m b) then a else b) init keys))"
  using keys
proof (induction keys rule: rev_induct)
  case Nil
  then show ?case by simp
next
  case (snoc b keys)
  let ?f = "\<lambda>a b. if count_gt (m a) (m b) then a else b"
  let ?a = "foldl ?f init keys"
  have ih: "?a \<in> insert init (set keys)" "\<forall>k \<in> set keys. cnt k \<le> cnt ?a"
    using snoc by simp_all
  have b: "cnt b \<noteq> 0" using snoc.prems by simp
  have g: "count_gt (m ?a) (m b) = (cnt b < cnt ?a)"
    using b by (auto simp add: count_gt_def m)
  show ?case
  proof (cases "cnt b < cnt ?a")
    case True
    then have "foldl ?f init (keys @ [b]) = ?a" using g by simp
    then show ?thesis using ih True by auto
  next
    case False
    then have "foldl ?f init (keys @ [b]) = b" using g by simp
    then show ?thesis using ih False by fastforce
  qed
qed

lemma selectYear_target:
  "y \<noteq> 0 \<Longrightarrow> selectYear yc currentYear (Some y) = Some y"
  by (simp add: selectYear_def)

lemma selectYear_auto:
  assumes "targetYear = None \<or> targetYear = Some 0"
  shows "selectYear (yearCounts newDate tz history) currentYear targetYear
           \<in> insert (Some currentYear) (entryYear newDate tz ` set history)
         \<and> (\<forall>item \<in> set history.
               items_in newDate tz history (entryYear newDate tz item)
                 \<le> items_in newDate tz history
                      (selectYear (yearCounts newDate tz history) currentYear targetYear))"
proof -
  let ?yc = "yearCounts newDate tz history"
  let ?f = "\<lambda>a b. if count_gt (map_of ?yc a) (map_of ?yc b) then a else b"
  have s: "selectYear ?yc currentYear targetYear = foldl ?f (Some currentYear) (map fst ?yc)"
    using assms by (auto simp add: selectYear_def)
  have k: "set (map fst ?yc) = entryYear newDate tz ` set history"
    using yearCounts_spec[of newDate tz history] by simp
  have p: "\<forall>k \<in> set (map fst ?yc). items_in newDate tz history k \<noteq> 0"
    unfolding k by (auto simp add: items_in_def filter_empty_conv)
  have "foldl ?f (Some currentYear) (map fst ?yc) \<in> insert (Some currentYear) (set (map fst ?yc))
        \<and> (\<forall>k \<in> set (map fst ?yc).
              items_in newDate tz history k
                \<le> items_in newDate tz history (foldl ?f (Some currentYear) (map fst ?yc)))"
    by (rule reduce_most[OF _ p]) (simp add: yearCounts_spec)
  then show ?thesis unfolding s k by simp
qed

text \<open>
  Claim C6, as amended. On a raw history whose \<open>episode\<close> records carry their
  \<open>episode\<close> and \<open>show\<close> objects and whose \<open>movie\<close> records carry their \<open>movie\<close>
  object, \<open>processTraktHistory\<close> returns a result and raises no error. The selected year
  it returns is the target year when one is given and is not 0. With no target year, or
  with the target 0, it is detected from the history: it is the current year or the local
  year of a record, and no record's local year has more records than it. The returned
  entries are, in order, the records that have a parseable \<open>watched_at\<close> in the selected
  year and the type \<open>episode\<close> or \<open>movie\<close>; every other record is dropped, and every
  returned entry's local year is the selected year.
\<close>

theorem processTraktHistory_drops_malformed:
  assumes "\<forall>item \<in> set history. wf_item item"
  shows "\<exists>r. processTraktHistory newDate tz currentYear history targetYear = Inr r
           \<and> (\<forall>y. targetYear = Some y \<and> y \<noteq> 0 \<longrightarrow>
                 res_year r = Some y
                 \<and> (\<forall>e \<in> set (res_entries r). getFullYear tz (date e) = y))
           \<and> (targetYear = None \<or> targetYear = Some 0 \<longrightarrow>
                 res_year r \<in> insert (Some currentYear) (entryYear newDate tz ` set history)
                 \<and> (\<forall>item \<in> set history.
                       items_in newDate tz history (entryYear newDate tz item)
                         \<le> items_in newDate tz history (res_year r)))
           \<and> (\<forall>e \<in> set (res_entries r). Some (getFullYear tz (date e)) = res_year r)
           \<and> map (\<lambda>e. (Some (date e), etype e)) (res_entries r) =
               map (\<lambda>i. (newDate (watched_at i), item_type i))
                 (filter (kept newDate tz (res_year r)) history)
           \<and> totalItemsWatched r = length (res_entries r)"
proof -
  define sel where "sel = selectYear (yearCounts newDate tz history) currentYear targetYear"
  from history_loop_wf[OF assms, of newDate tz sel
      "\<lparr>res_entries = [], res_year = sel, totalItemsWatched = 0, moviesCount = 0, episodesCount = 0\<rparr>"]
  obtain r es where r: "history_loop newDate tz sel
      \<lparr>res_entries = [], res_year = sel, totalItemsWatched = 0, moviesCount = 0, episodesCount = 0\<rparr>
      history = Inr r"
    "res_year r = sel" "res_entries r = es" "totalItemsWatched r = length es"
    "\<forall>e \<in> set es. Some (getFullYear tz (date e)) = sel"
    "map (\<lambda>e. (Some (date e), etype e)) es =
       map (\<lambda>i. (newDate (watched_at i), item_type i)) (filter (kept newDate tz sel) history)"
    by auto
  have p: "processTraktHistory newDate tz currentYear history targetYear = Inr r"
    using r(1) by (simp add: processTraktHistory_def Let_def sel_def yearCounts_def)
  have t: "res_year r = Some y \<and> (\<forall>e \<in> set (res_entries r). getFullYear tz (date e) = y)"
    if "targetYear = Some y \<and> y \<noteq> 0" for y
  proof -
    have "sel = Some y" using that by (simp add: sel_def selectYear_target)
    then show ?thesis using r(2,3,5) by auto
  qed
  have a: "res_year r \<in> insert (Some currentYear) (entryYear newDate tz ` set history)
           \<and> (\<forall>item \<in> set history.
                 items_in newDate tz history (entryYear newDate tz item)
                   \<le> items_in newDate tz history (res_year r))"
    if "targetYear = None \<or> targetYear = Some 0"
    unfolding r(2) sel_def by (rule selectYear_auto[OF that])
  have e: "\<forall>e \<in> set (res_entries r). Some (getFullYear tz (date e)) = res_year r"
    using r(2,3,5) by simp
  have m: "map (\<lambda>e. (Some (date e), etype e)) (res_entries r) =
               map (\<lambda>i. (newDate (watched_at i), item_type i))
                 (filter (kept newDate tz (res_year r)) history)"
    using r(2,3,6) by simp
  have l: "totalItemsWatched r = length (res_entries r)" using r(3,4) by simp
  show ?thesis
    apply (rule exI[of _ r])
    apply (intro conjI allI impI)
    apply (rule p)
    apply (erule t[THEN conjunct1])
    apply (erule t[THEN conjunct2])
    apply (erule a[THEN conjunct1])
    apply (erule a[THEN conjunct2])
    apply (rule e)
    apply (rule m)
    apply (rule l)
    done
qed

lemma history_sample_wf: "\<forall>item \<in> set history_sample. wf_item item"
  by (simp add: history_sample_def wf_item_def raw_sample_def)

lemma history_sample_auto:
  "map_option res_year
     (case processTraktHistory newDate_sample 0 2026 history_sample None of
        Inr r \<Rightarrow> Some r | Inl err \<Rightarrow> None) = Some (Some 2024)"
  by code_simp

theorem processTraktHistory_drops_malformed_witness:
  "(\<exists>r. processTraktHistory newDate_sample 0 2026 history_sample (Some 2024) = Inr r
      \<and> res_year r = Some 2024
      \<and> (\<forall>e \<in> set (res_entries r). getFullYear 0 (date e) = 2024)
      \<and> map (\<lambda>e. (Some (date e), etype e)) (res_entries r) =
          map (\<lambda>i. (newDate_sample (watched_at i), item_type i))
            (filter (kept newDate_sample 0 (res_year r)) history_sample)
      \<and> totalItemsWatched r = length (res_entries r))
   \<and> (\<exists>r. processTraktHistory newDate_sample 0 2026 history_sample None = Inr r
      \<and> res_year r = Some 2024
      \<and> res_year r \<in> insert (Some 2026) (entryYear newDate_sample 0 ` set history_sample)
      \<and> (\<forall>item \<in> set history_sample.
            items_in newDate_sample 0 history_sample (entryYear newDate_sample 0 item)
              \<le> items_in newDate_sample 0 history_sample (res_year r))
      \<and> (\<forall>e \<in> set (res_entries r). Some (getFullYear 0 (date e)) = res_year r)
      \<and> totalItemsWatched r = length (res_entries r))"
proof (rule conjI)
  from processTraktHistory_drops_malformed[OF history_sample_wf, of newDate_sample 0 2026 "Some 2024"]
  show "\<exists>r. processTraktHistory newDate_sample 0 2026 history_sample (Some 2024) = Inr r
      \<and> res_year r = Some 2024
      \<and> (\<forall>e \<in> set (res_entries r). getFullYear 0 (date e) = 2024)
      \<and> map (\<lambda>e. (Some (date e), etype e)) (res_entries r) =
          map (\<lambda>i. (newDate_sample (watched_at i), item_type i))
            (filter (kept newDate_sample 0 (res_year r)) history_sample)
      \<and> totalItemsWatched r = length (res_entries r)"
    by auto
next
  from processTraktHistory_drops_malformed[OF history_sample_wf, of newDate_sample 0 2026 None]
  obtain r where r: "processTraktHistory newDate_sample 0 2026 history_sample None = Inr r"
    "res_year r \<in> insert (Some 2026) (entryYear newDate_sample 0 ` set history_sample)"
    "\<forall>item \<in> set history_sample.
        items_in newDate_sample 0 history_sample (entryYear newDate_sample 0 item)
          \<le> items_in newDate_sample 0 history_sample (res_year r)"
    "\<forall>e \<in> set (res_entries r). Some (getFullYear 0 (date e)) = res_year r"
    "totalItemsWatched r = length (res_entries r)"
    by auto
  have "res_year r = Some 2024" using history_sample_auto by (simp add: r(1))
  then show "\<exists>r. processTraktHistory newDate_sample 0 2026 history_sample None = Inr r
      \<and> res_year r = Some 2024
      \<and> res_year r \<in> insert (Some 2026) (entryYear newDate_sample 0 ` set history_sample)
      \<and> (\<forall>item \<in> set history_sample.
            items_in newDate_sample 0 history_sample (entryYear newDate_sample 0 item)
              \<le> items_in newDate_sample 0 history_sample (res_year r))
      \<and> (\<forall>e \<in> set (res_entries r). Some (getFullYear 0 (date e)) = res_year r)
      \<and> totalItemsWatched r = length (res_entries r)"
    using r by blast
qed

text \<open>
  The claim as stated fails on a record of type \<open>episode\<close> that lacks its nested objects:
  reading \<open>episode.season\<close> raises a TypeError.
\<close>

lemma getFullYear_epoch: "getFullYear 0 0 = 1970"
  by code_simp

theorem processTraktHistory_raises:
  "processTraktHistory (\<lambda>w. Some 0) 0 2026
     [\<lparr>watched_at = ''1970-01-01T00:00:00.000Z'', item_type = ''episode'', item_episode = None,
       item_show = None, item_movie = None\<rparr>] (Some 1970) = Inl TypeError"
  by (simp add: processTraktHistory_def selectYear_def history_step_def getFullYear_epoch)

section \<open>Cells outside the displayed year\<close>

lemma cellDate_eq: "cellDate start dy week = start + (week * 7 + dy) * msPerDay"
  using setUTCDate_shift[of start "week * 7 + dy"] by (simp add: cellDate_def add.assoc)












section \<open>Repeated calls of generateSvg\<close>

lemma getEmbeddedFonts_again:
  "getEmbeddedFonts env2 (snd (getEmbeddedFonts env1 cache)) = getEmbeddedFonts env1 cache"
  by (cases cache) (simp_all add: getEmbeddedFonts_def)

lemma getEmbeddedFonts_files:
  "fontFiles env2 = fontFiles env1 \<Longrightarrow> getEmbeddedFonts env2 cache = getEmbeddedFonts env1 cache"
proof -
  assume "fontFiles env2 = fontFiles env1"
  then have "loadFontsBase64 env2 = loadFontsBase64 env1" by (simp add: loadFontsBase64_def)
  then show ?thesis by (cases cache) (simp_all add: getEmbeddedFonts_def)
qed

lemma generateSvg_cells_total:
  "\<exists>cells. generateSvg_cells tz entries themeName username yr weekStart = Inr cells"
proof -
  obtain st where "generateSvg_grid tz entries yr weekStart = Inr st"
    using generateSvg_grid_ok[of tz entries yr weekStart] by blast
  then show ?thesis by (simp add: generateSvg_cells_def Let_def)
qed

text \<open>
  With an explicit year the grid loop never faults, so \<open>generateSvg\<close> returns its template
  filled with one record of values, whatever the template is.
\<close>

lemma generateSvg_values:
  assumes "year_opt options = Some yr"
    and "(case theme_opt options of Some n \<Rightarrow> n | None \<Rightarrow> ''dark'') \<notin> set inherited_names"
  shows "\<exists>v. v_daysActive v = calculateDaysActive (tzOffset env) (sortedEntries (tzOffset env) yr entries)
             \<and> v_fontFaces v = generateFontFaceCSS (fst (getEmbeddedFonts env cache))
             \<and> (\<forall>template. fst (generateSvg template round45 env cache entries options)
                              = Inr (template v))"
proof -
  obtain cells where c: "generateSvg_cells (tzOffset env) entries
                (case theme_opt options of Some n \<Rightarrow> n | None \<Rightarrow> ''dark'')
                (case username_opt options of Some n \<Rightarrow> n | None \<Rightarrow> [])
                yr (case weekStart_opt options of Some w \<Rightarrow> w | None \<Rightarrow> ''sunday'') = Inr cells"
    using generateSvg_cells_total by blast
  obtain loaded cache' where g: "getEmbeddedFonts env cache = (loaded, cache')"
    by (cases "getEmbeddedFonts env cache")
  show ?thesis
    unfolding generateSvg_def Let_def assms(1) option.case c sum.case g prod.case
      if_not_P[OF assms(2)] fst_conv
    apply (rule exI, rule conjI)
    prefer 2
    apply (rule conjI)
    prefer 2
    apply (rule allI, rule refl)
    apply simp
    apply simp
    done
qed

text \<open>
  Claim C7, as amended. With an explicit year, two invocations of \<open>generateSvg\<close> on the same
  entries and options return the same result when they run in the same time zone and see
  the same embedded fonts: either the second runs after the first in the same process, from
  the module state the first left (then even if the font files changed in between), or both
  start from the same module state and find the same font files. The clock may differ: the
  document embeds nothing read from the clock and nothing random. The result is a document
  unless the theme is a name that the table of themes only inherits.
\<close>

theorem generateSvg_deterministic:
  assumes "year_opt options = Some yr" and "tzOffset env2 = tzOffset env1"
    and "cache2 = snd (generateSvg template round45 env1 cache1 entries options)
         \<or> (cache2 = cache1 \<and> fontFiles env2 = fontFiles env1)"
  shows "fst (generateSvg template round45 env2 cache2 entries options)
           = fst (generateSvg template round45 env1 cache1 entries options)
         \<and> ((case theme_opt options of Some n \<Rightarrow> n | None \<Rightarrow> ''dark'') \<notin> set inherited_names
              \<longrightarrow> (\<exists>document. fst (generateSvg template round45 env1 cache1 entries options)
                                  = Inr document))"
proof (rule conjI)
  show "fst (generateSvg template round45 env2 cache2 entries options)
           = fst (generateSvg template round45 env1 cache1 entries options)"
  proof (cases "generateSvg_cells (tzOffset env1) entries
                  (case theme_opt options of Some n \<Rightarrow> n | None \<Rightarrow> ''dark'')
                  (case username_opt options of Some n \<Rightarrow> n | None \<Rightarrow> [])
                  yr (case weekStart_opt options of Some w \<Rightarrow> w | None \<Rightarrow> ''sunday'')")
    case (Inl fault)
    then show ?thesis using assms(1,2) by (simp add: generateSvg_def Let_def)
  next
    case (Inr cells)
    obtain loaded cache' where g: "getEmbeddedFonts env1 cache1 = (loaded, cache')"
      by (cases "getEmbeddedFonts env1 cache1")
    have s: "snd (generateSvg template round45 env1 cache1 entries options) = cache'"
      using assms(1) Inr g by (simp add: generateSvg_def Let_def)
    have "getEmbeddedFonts env2 cache2 = (loaded, cache')"
      using assms(3)
    proof
      assume "cache2 = snd (generateSvg template round45 env1 cache1 entries options)"
      then have "cache2 = cache'" using s by simp
      then show ?thesis using getEmbeddedFonts_again[of env2 env1 cache1] g by simp
    next
      assume "cache2 = cache1 \<and> fontFiles env2 = fontFiles env1"
      then show ?thesis using getEmbeddedFonts_files[of env2 env1 cache1] g by simp
    qed
    then show ?thesis using assms(1,2) Inr g by (simp add: generateSvg_def Let_def)
  qed
next
  show "(case theme_opt options of Some n \<Rightarrow> n | None \<Rightarrow> ''dark'') \<notin> set inherited_names
          \<longrightarrow> (\<exists>document. fst (generateSvg template round45 env1 cache1 entries options)
                              = Inr document)"
  proof
    assume "(case theme_opt options of Some n \<Rightarrow> n | None \<Rightarrow> ''dark'') \<notin> set inherited_names"
    from generateSvg_values[OF assms(1) this, of env1 entries cache1 round45]
    show "\<exists>document. fst (generateSvg template round45 env1 cache1 entries options) = Inr document"
      by blast
  qed
qed

lemma options_sample_facts:
  "year_opt options_sample = Some 2024"
  "(case theme_opt options_sample of Some n \<Rightarrow> n | None \<Rightarrow> ''dark'') \<notin> set inherited_names"
  by (simp_all add: options_sample_def inherited_names_def)

theorem generateSvg_deterministic_witness:
  "fst (generateSvg (\<lambda>v. String_int (v_width v)) (\<lambda>count m. 0) (env_sample 1767225600000)
          (snd (generateSvg (\<lambda>v. String_int (v_width v)) (\<lambda>count m. 0) (env_sample 1704067200000)
                  None [movie_at 1704067200000] options_sample))
          [movie_at 1704067200000] options_sample)
   = fst (generateSvg (\<lambda>v. String_int (v_width v)) (\<lambda>count m. 0) (env_sample 1704067200000)
            None [movie_at 1704067200000] options_sample)
   \<and> (\<exists>document. fst (generateSvg (\<lambda>v. String_int (v_width v)) (\<lambda>count m. 0)
                          (env_sample 1704067200000) None [movie_at 1704067200000] options_sample)
                    = Inr document)
   \<and> fst (generateSvg daysActive_line (\<lambda>count m. 0) (env_sample 1767225600000)
          None [movie_at 1704067200000] options_sample)
   = fst (generateSvg daysActive_line (\<lambda>count m. 0) (env_sample 1704067200000)
            None [movie_at 1704067200000] options_sample)"
proof -
  have z: "tzOffset (env_sample 1767225600000) = tzOffset (env_sample 1704067200000)"
    by (simp add: env_sample_def)
  have f: "fontFiles (env_sample 1767225600000) = fontFiles (env_sample 1704067200000)"
    by (simp add: env_sample_def)
  have a: "fst (generateSvg (\<lambda>v. String_int (v_width v)) (\<lambda>count m. 0) (env_sample 1767225600000)
          (snd (generateSvg (\<lambda>v. String_int (v_width v)) (\<lambda>count m. 0) (env_sample 1704067200000)
                  None [movie_at 1704067200000] options_sample))
          [movie_at 1704067200000] options_sample)
     = fst (generateSvg (\<lambda>v. String_int (v_width v)) (\<lambda>count m. 0) (env_sample 1704067200000)
            None [movie_at 1704067200000] options_sample)
     \<and> (\<exists>document. fst (generateSvg (\<lambda>v. String_int (v_width v)) (\<lambda>count m. 0)
                          (env_sample 1704067200000) None [movie_at 1704067200000] options_sample)
                    = Inr document)"
    using generateSvg_deterministic[OF options_sample_facts(1) z disjI1[OF refl]]
      options_sample_facts(2) by blast
  have b: "fst (generateSvg daysActive_line (\<lambda>count m. 0) (env_sample 1767225600000)
          None [movie_at 1704067200000] options_sample)
     = fst (generateSvg daysActive_line (\<lambda>count m. 0) (env_sample 1704067200000)
            None [movie_at 1704067200000] options_sample)"
    using generateSvg_deterministic[OF options_sample_facts(1) z disjI2[OF conjI[OF refl f]]]
    by blast
  show ?thesis using a b by blast
qed

lemma zone_days:
  "getLocalDateString 0 1704128400000 = ''2024-01-01''"
  "getLocalDateString 0 1704135600000 = ''2024-01-01''"
  "getLocalDateString 21600000 1704128400000 = ''2024-01-01''"
  "getLocalDateString 21600000 1704135600000 = ''2024-01-02''"
  by code_simp+

lemma zone_years:
  "getFullYear 0 1704128400000 = 2024" "getFullYear 0 1704135600000 = 2024"
  "getFullYear 21600000 1704128400000 = 2024" "getFullYear 21600000 1704135600000 = 2024"
  by code_simp+

lemma zone_sorted:
  "sortedEntries 0 2024 [movie_at 1704128400000, movie_at 1704135600000]
     = [movie_at 1704128400000, movie_at 1704135600000]"
  "sortedEntries 21600000 2024 [movie_at 1704128400000, movie_at 1704135600000]
     = [movie_at 1704128400000, movie_at 1704135600000]"
  by (simp_all add: sortedEntries_def movie_at_def zone_years)

lemma days_active_zones:
  "calculateDaysActive 0 (sortedEntries 0 2024 [movie_at 1704128400000, movie_at 1704135600000]) = 1"
  "calculateDaysActive 21600000
     (sortedEntries 21600000 2024 [movie_at 1704128400000, movie_at 1704135600000]) = 2"
  unfolding zone_sorted
  by (simp_all add: calculateDaysActive_def Set_from_def Set_add_def movie_at_def zone_days)

lemma show_nat_small: "show_nat 1 = ''1''" "show_nat 2 = ''2''"
  by code_simp+

lemma font_faces_zones:
  "generateFontFaceCSS (fst (getEmbeddedFonts (env_zone 0 (\<lambda>filename. None)) None)) = []"
  "generateFontFaceCSS (fst (getEmbeddedFonts
      (env_zone 0 (\<lambda>filename. if filename = ''Inter-Regular.woff2'' then Some ''AAAA'' else None)) None))
     = [Some ''data:font/woff2;base64,AAAA'', None, None, None]"
  by (simp_all add: generateFontFaceCSS_def getEmbeddedFonts_def loadFontsBase64_def env_zone_def)

text \<open>
  The claim as stated fails across environments. The same two entries, watched at 17:00 and
  19:00 UTC on 2024-01-01, with the same options (year 2024, light theme), give a document
  that reads \<open>1 Days Active\<close> where local time is UTC and \<open>2 Days Active\<close> where it is six
  hours ahead, since the local day of the second entry is then 2024-01-02. Likewise, in one
  time zone, the font faces of the document are empty where no font file is found and hold
  the file's data where one is.
\<close>

theorem generateSvg_depends_on_environment:
  "(\<exists>v1 v2. v_daysActive v1 = 1 \<and> v_daysActive v2 = 2
      \<and> (\<forall>template.
            fst (generateSvg template (\<lambda>count m. 0) (env_zone 0 (\<lambda>filename. None)) None
                   [movie_at 1704128400000, movie_at 1704135600000] options_sample)
              = Inr (template v1)
            \<and> fst (generateSvg template (\<lambda>count m. 0) (env_zone 21600000 (\<lambda>filename. None)) None
                   [movie_at 1704128400000, movie_at 1704135600000] options_sample)
              = Inr (template v2)))
   \<and> fst (generateSvg daysActive_line (\<lambda>count m. 0) (env_zone 0 (\<lambda>filename. None)) None
            [movie_at 1704128400000, movie_at 1704135600000] options_sample)
       = Inr ''1 Days Active''
   \<and> fst (generateSvg daysActive_line (\<lambda>count m. 0) (env_zone 21600000 (\<lambda>filename. None)) None
            [movie_at 1704128400000, movie_at 1704135600000] options_sample)
       = Inr ''2 Days Active''
   \<and> (\<exists>v1 v2. v_fontFaces v1 = []
      \<and> v_fontFaces v2 = [Some ''data:font/woff2;base64,AAAA'', None, None, None]
      \<and> (\<forall>template.
            fst (generateSvg template (\<lambda>count m. 0) (env_zone 0 (\<lambda>filename. None)) None
                   [movie_at 1704128400000, movie_at 1704135600000] options_sample)
              = Inr (template v1)
            \<and> fst (generateSvg template (\<lambda>count m. 0)
                     (env_zone 0 (\<lambda>filename. if filename = ''Inter-Regular.woff2''
                                               then Some ''AAAA'' else None)) None
                   [movie_at 1704128400000, movie_at 1704135600000] options_sample)
              = Inr (template v2)))"
proof -
  let ?es = "[movie_at 1704128400000, movie_at 1704135600000]"
  let ?none = "\<lambda>filename::string. None::string option"
  let ?one = "\<lambda>filename. if filename = ''Inter-Regular.woff2'' then Some ''AAAA'' else None"
  note y = options_sample_facts(1)
  note n = options_sample_facts(2)
  have z: "tzOffset (env_zone tz files) = tz" for tz files by (simp add: env_zone_def)
  obtain v1 where v1: "v_daysActive v1 = 1" "v_fontFaces v1 = []"
    "\<And>template. fst (generateSvg template (\<lambda>count m. 0) (env_zone 0 ?none) None
                   ?es options_sample) = Inr (template v1)"
    using generateSvg_values[OF y n, of "env_zone 0 ?none" ?es None "\<lambda>count m. 0"]
    unfolding z days_active_zones font_faces_zones by blast
  obtain v2 where v2: "v_daysActive v2 = 2"
    "\<And>template. fst (generateSvg template (\<lambda>count m. 0) (env_zone 21600000 ?none) None
                   ?es options_sample) = Inr (template v2)"
    using generateSvg_values[OF y n, of "env_zone 21600000 ?none" ?es None "\<lambda>count m. 0"]
    unfolding z days_active_zones by blast
  obtain v3 where v3: "v_fontFaces v3 = [Some ''data:font/woff2;base64,AAAA'', None, None, None]"
    "\<And>template. fst (generateSvg template (\<lambda>count m. 0) (env_zone 0 ?one) None
                   ?es options_sample) = Inr (template v3)"
    using generateSvg_values[OF y n, of "env_zone 0 ?one" ?es None "\<lambda>count m. 0"]
    unfolding z font_faces_zones by blast
  have a: "\<exists>v1 v2. v_daysActive v1 = 1 \<and> v_daysActive v2 = 2
      \<and> (\<forall>template.
            fst (generateSvg template (\<lambda>count m. 0) (env_zone 0 ?none) None
                   ?es options_sample) = Inr (template v1)
            \<and> fst (generateSvg template (\<lambda>count m. 0) (env_zone 21600000 ?none) None
                   ?es options_sample) = Inr (template v2))"
    using v1(1,3) v2 by blast
  have b: "fst (generateSvg daysActive_line (\<lambda>count m. 0) (env_zone 0 ?none) None
            ?es options_sample) = Inr ''1 Days Active''"
    unfolding v1(3) daysActive_line_def v1(1) show_nat_small by simp
  have c: "fst (generateSvg daysActive_line (\<lambda>count m. 0) (env_zone 21600000 ?none) None
            ?es options_sample) = Inr ''2 Days Active''"
    unfolding v2(2) daysActive_line_def v2(1) show_nat_small by simp
  have d: "\<exists>v1 v2. v_fontFaces v1 = []
      \<and> v_fontFaces v2 = [Some ''data:font/woff2;base64,AAAA'', None, None, None]
      \<and> (\<forall>template.
            fst (generateSvg template (\<lambda>count m. 0) (env_zone 0 ?none) None
                   ?es options_sample) = Inr (template v1)
            \<and> fst (generateSvg template (\<lambda>count m. 0) (env_zone 0 ?one) None
                   ?es options_sample) = Inr (template v2))"
    using v1(2,3) v3 by blast
  show ?thesis
    apply (intro conjI)
    apply (rule a)
    apply (rule b)
    apply (rule c)
    apply (rule d)
    done
qed

end
